theory Spec2Isabelle
  imports Complex_Main "HOL-Library.Word"
begin

unbundle bit_operations_syntax

section \<open>Values of the runtime\<close>

text \<open>
  A \<open>Buffer\<close> or \<open>Uint8Array\<close> is a list of bytes. A JavaScript string is a \<open>string\<close>;
  every literal the code compares with is ASCII.
\<close>

type_synonym byte = "8 word"
type_synonym buffer = "byte list"

text \<open>
  A JavaScript number. A finite double is a rational, so it is kept by its exact value
  (the sign of zero is not kept: nothing here reads it). \<open>NaN\<close> and the two infinities are
  values of their own.
\<close>

datatype jsnum = NaN | PosInf | NegInf | Fin rat

fun isFinite :: "jsnum \<Rightarrow> bool" where
  "isFinite (Fin _) = True"
| "isFinite _ = False"

text \<open>\<open>a >= b\<close> and \<open>a > b\<close> of JavaScript, for a finite right operand: false when \<open>a\<close> is NaN.\<close>

fun js_ge :: "jsnum \<Rightarrow> rat \<Rightarrow> bool" where
  "js_ge (Fin a) b = (a \<ge> b)"
| "js_ge PosInf b = True"
| "js_ge _ b = False"

fun js_gt :: "jsnum \<Rightarrow> rat \<Rightarrow> bool" where
  "js_gt (Fin a) b = (a > b)"
| "js_gt PosInf b = True"
| "js_gt _ b = False"

text \<open>
  An awaited call either returns a value or throws: \<open>Inl\<close> carries \<open>String(error)\<close> of
  what was thrown, \<open>Inr\<close> the value.
\<close>

type_synonym 'a js = "string + 'a"

definition startsWith :: "string \<Rightarrow> string \<Rightarrow> bool" where
  "startsWith s p = (take (length p) s = p)"

definition slice_from :: "nat \<Rightarrow> string \<Rightarrow> string" where
  "slice_from n s = drop n s"

section \<open>src/media/vision.ts\<close>

definition MAX_VISION_IMAGE_BYTES :: nat where
  "MAX_VISION_IMAGE_BYTES = 10 * 1024 * 1024"

definition QQ_TMP_PREFIX :: string where
  "QQ_TMP_PREFIX = ''qq_vision_''"

text \<open>
  \<open>Headers\<close>: \<open>get\<close> answers an absent header with null. Names are kept in lower case, as
  the code asks for them.
\<close>

type_synonym headers = "string \<Rightarrow> string option"

text \<open>
  The functions of the platform that the code calls and that are not modelled here
  character by character are parameters: \<open>Number(value)\<close>, \<open>decodeURIComponent\<close> (it throws
  on a malformed escape), \<open>new URL(rawUrl).pathname\<close> (the constructor throws on a string
  it cannot parse) and \<open>path.extname\<close>.
\<close>

record runtime =
  Number :: "string \<Rightarrow> jsnum"
  decodeURIComponent :: "string \<Rightarrow> string js"
  URL_pathname :: "string \<Rightarrow> string option"
  path_extname :: "string \<Rightarrow> string"

subsection \<open>parseContentLength\<close>

definition parseContentLength :: "runtime \<Rightarrow> headers \<Rightarrow> jsnum option" where
  "parseContentLength rt h =
     (case h ''content-length'' of
        None \<Rightarrow> None
      | Some v \<Rightarrow>
          if v = [] then None
          else (let parsed = Number rt v
                in if isFinite parsed \<and> js_ge parsed 0 then Some parsed else None))"

subsection \<open>readResponseBodyWithLimit\<close>

text \<open>
  What \<open>reader.read()\<close> gives, call after call: a chunk, a result with neither \<open>done\<close> nor a
  \<open>value\<close>, the end of the body, or a rejection (the transfer failed or was aborted, by the
  caller's timer among others). A body is finite: a transfer that stalls ends in the
  rejection its abort timer causes.
\<close>

datatype body_stream =
    Done
  | Failed string
  | Chunk buffer body_stream
  | NoValue body_stream

record response =
  ok :: bool
  headers :: headers
  body :: "body_stream option"

record AbortController =
  aborted :: bool

definition abort :: "AbortController \<Rightarrow> AbortController" where
  "abort c = c\<lparr>aborted := True\<rparr>"

text \<open>
  \<open>Buffer.concat(list, totalLength)\<close>: the chunks one after the other, cut or filled with
  zeros to \<open>totalLength\<close>.
\<close>

definition Buffer_concat :: "buffer list \<Rightarrow> nat \<Rightarrow> buffer" where
  "Buffer_concat chunks totalLength =
     take totalLength (concat chunks) @ replicate (totalLength - length (concat chunks)) 0"

text \<open>
  The \<open>while (true)\<close> loop, with its variables \<open>chunks\<close> and \<open>received\<close>. The result is the
  returned buffer (\<open>None\<close> for null) or what \<open>read\<close> threw, and the controller as the loop
  leaves it.
\<close>

fun read_loop ::
  "body_stream \<Rightarrow> nat \<Rightarrow> buffer list \<Rightarrow> nat \<Rightarrow> AbortController option
     \<Rightarrow> buffer option js \<times> AbortController option" where
  "read_loop Done maxBytes chunks received ctl =
     (Inr (Some (Buffer_concat chunks received)), ctl)"
| "read_loop (Failed e) maxBytes chunks received ctl = (Inl e, ctl)"
| "read_loop (NoValue s) maxBytes chunks received ctl =
     read_loop s maxBytes chunks received ctl"
| "read_loop (Chunk v s) maxBytes chunks received ctl =
     (let received' = received + length v
      in if received' > maxBytes then (Inr None, map_option abort ctl)
         else read_loop s maxBytes (chunks @ [v]) received' ctl)"

definition readResponseBodyWithLimit ::
  "response \<Rightarrow> nat \<Rightarrow> AbortController option
     \<Rightarrow> buffer option js \<times> AbortController option" where
  "readResponseBodyWithLimit res maxBytes ctl =
     (case body res of
        None \<Rightarrow> (Inr (Some []), ctl)
      | Some s \<Rightarrow> read_loop s maxBytes [] 0 ctl)"

text \<open>The chunks a body delivers before it ends or fails, whether it ends, and what it fails with.\<close>

fun delivered :: "body_stream \<Rightarrow> buffer list" where
  "delivered Done = []"
| "delivered (Failed e) = []"
| "delivered (NoValue s) = delivered s"
| "delivered (Chunk v s) = v # delivered s"

fun completes :: "body_stream \<Rightarrow> bool" where
  "completes Done = True"
| "completes (Failed e) = False"
| "completes (NoValue s) = completes s"
| "completes (Chunk v s) = completes s"

fun stream_error :: "body_stream \<Rightarrow> string option" where
  "stream_error Done = None"
| "stream_error (Failed e) = Some e"
| "stream_error (NoValue s) = stream_error s"
| "stream_error (Chunk v s) = stream_error s"

subsection \<open>Strings, paths and base64 of the platform\<close>

text \<open>\<open>String(n)\<close> of a natural number: its decimal digits.\<close>

definition digit_char :: "nat \<Rightarrow> char" where
  "digit_char d = ''0123456789'' ! d"

fun string_of_nat :: "nat \<Rightarrow> string" where
  "string_of_nat n =
     (if n < 10 then [digit_char n] else string_of_nat (n div 10) @ [digit_char (n mod 10)])"

declare string_of_nat.simps [simp del]

text \<open>\<open>s.split(c)\<close> for a separator of one character: never empty.\<close>

fun split_sep :: "char \<Rightarrow> string \<Rightarrow> string list" where
  "split_sep c [] = [[]]"
| "split_sep c (x # xs) =
     (if x = c then [] # split_sep c xs
      else (case split_sep c xs of s # ss \<Rightarrow> (x # s) # ss | [] \<Rightarrow> [[x]]))"

fun join_sep :: "char \<Rightarrow> string list \<Rightarrow> string" where
  "join_sep c [] = []"
| "join_sep c [s] = s"
| "join_sep c (s # ss) = s @ c # join_sep c ss"

text \<open>
  \<open>path.join("/tmp", name)\<close> of node:path (POSIX): the two parts joined by a slash, then
  normalised. The joined path is absolute, so a \<open>..\<close> drops the segment before it, if
  there is one, and empty and \<open>.\<close> segments are dropped; a trailing slash is kept.
\<close>

fun normalizeString :: "string list \<Rightarrow> string list \<Rightarrow> string list" where
  "normalizeString res [] = res"
| "normalizeString res (seg # segs) =
     (if seg = [] \<or> seg = ''.'' then normalizeString res segs
      else if seg = ''..'' then normalizeString (butlast res) segs
      else normalizeString (res @ [seg]) segs)"

definition path_join_tmp :: "string \<Rightarrow> string" where
  "path_join_tmp name =
     (let joined = (if name = [] then ''/tmp'' else ''/tmp'' @ ''/'' @ name);
          trailingSeparator = (last joined = CHR ''/'');
          p = join_sep (CHR ''/'') (normalizeString [] (split_sep (CHR ''/'') joined))
      in if p = [] then ''/''
         else ''/'' @ p @ (if trailingSeparator then ''/'' else []))"

text \<open>
  \<open>trim\<close> and \<open>toLowerCase\<close> on a header value, whose characters are single bytes: the white
  space of ECMAScript among them is tab, LF, VT, FF, CR, space and U+00A0. Lower case is
  taken for \<open>A\<close> to \<open>Z\<close> only: the results are compared with ASCII literals, and no other
  character has an ASCII lower case.
\<close>

definition js_space :: "char \<Rightarrow> bool" where
  "js_space c = (of_char c \<in> {9, 10, 11, 12, 13, 32, 160 :: nat})"

definition trim :: "string \<Rightarrow> string" where
  "trim s = rev (dropWhile js_space (rev (dropWhile js_space s)))"

definition lower_char :: "char \<Rightarrow> char" where
  "lower_char c =
     (let n = (of_char c :: nat) in if 65 \<le> n \<and> n \<le> 90 then char_of (n + 32) else c)"

definition toLowerCase :: "string \<Rightarrow> string" where
  "toLowerCase s = map lower_char s"

text \<open>
  \<open>Buffer.from(s, "base64")\<close> and \<open>buf.toString("base64")\<close>. The decoder of the runtime is
  lenient: it reads the characters of the standard and of the URL-safe alphabet, skips
  every other character and stops at the first \<open>=\<close>; it never throws. Two sextets give
  one byte, three give two, four give three; a lone last sextet gives nothing.
\<close>

definition b64_alphabet :: string where
  "b64_alphabet = ''ABCDEFGHIJKLMNOPQRSTUVWXYZabcdefghijklmnopqrstuvwxyz0123456789+/''"

fun index_of :: "'a \<Rightarrow> 'a list \<Rightarrow> nat option" where
  "index_of x [] = None"
| "index_of x (y # ys) = (if x = y then Some 0 else map_option Suc (index_of x ys))"

definition unbase64 :: "char \<Rightarrow> byte option" where
  "unbase64 c =
     (if c = CHR ''-'' then Some 62
      else if c = CHR ''_'' then Some 63
      else map_option of_nat (index_of c b64_alphabet))"

definition b64_char :: "byte \<Rightarrow> char" where
  "b64_char v = b64_alphabet ! unat (v AND 63)"

fun decode_sextets :: "byte list \<Rightarrow> buffer" where
  "decode_sextets (a # b # c # d # rest) =
     (push_bit 2 (a AND 63) OR drop_bit 4 (b AND 48))
     # (push_bit 4 (b AND 15) OR drop_bit 2 (c AND 60))
     # (push_bit 6 (c AND 3) OR (d AND 63))
     # decode_sextets rest"
| "decode_sextets [a, b, c] =
     [push_bit 2 (a AND 63) OR drop_bit 4 (b AND 48),
      push_bit 4 (b AND 15) OR drop_bit 2 (c AND 60)]"
| "decode_sextets [a, b] = [push_bit 2 (a AND 63) OR drop_bit 4 (b AND 48)]"
| "decode_sextets _ = []"

definition Buffer_from_base64 :: "string \<Rightarrow> buffer" where
  "Buffer_from_base64 s =
     decode_sextets (List.map_filter unbase64 (takeWhile (\<lambda>c. c \<noteq> CHR ''='') s))"

fun encode_sextets :: "buffer \<Rightarrow> byte list" where
  "encode_sextets (a # b # c # rest) =
     drop_bit 2 a
     # (push_bit 4 (a AND 3) OR drop_bit 4 b)
     # (push_bit 2 (b AND 15) OR drop_bit 6 c)
     # (c AND 63)
     # encode_sextets rest"
| "encode_sextets [a, b] =
     [drop_bit 2 a, push_bit 4 (a AND 3) OR drop_bit 4 b, push_bit 2 (b AND 15)]"
| "encode_sextets [a] = [drop_bit 2 a, push_bit 4 (a AND 3)]"
| "encode_sextets [] = []"

definition toString_base64 :: "buffer \<Rightarrow> string" where
  "toString_base64 buf =
     map b64_char (encode_sextets buf) @ replicate ((3 - length buf mod 3) mod 3) (CHR ''='')"

subsection \<open>The file system, the network, the clock and the console\<close>

text \<open>
  What the helper reads of its surroundings and what it does to them. \<open>fs_stat\<close> is
  \<open>fs.stat(p).catch(() => null)\<close>: \<open>None\<close> when \<open>stat\<close> rejects. \<open>fs_writeFile\<close> gives the error of
  a write that is rejected. \<open>fetch\<close> answers a request with a response or throws (a network
  error, a scheme it does not serve, the abort its timer causes). \<open>written\<close>, \<open>requests\<close>
  and \<open>warnings\<close> record, in order, the files written, the requests issued and the lines
  given to \<open>console.warn\<close>.
\<close>

record stats =
  isFile :: bool
  size_bytes :: nat

datatype http_method = HEAD | GET

record world =
  fs_stat :: "string \<Rightarrow> stats option"
  fs_writeFile :: "string \<Rightarrow> string option"
  written :: "(string \<times> buffer) list"
  fetch :: "http_method \<Rightarrow> string \<Rightarrow> response js"
  requests :: "(http_method \<times> string) list"
  Date_now :: nat
  warnings :: "string list"

definition do_fetch :: "world \<Rightarrow> http_method \<Rightarrow> string \<Rightarrow> response js \<times> world" where
  "do_fetch w m url = (fetch w m url, w\<lparr>requests := requests w @ [(m, url)]\<rparr>)"

definition writeFile :: "world \<Rightarrow> string \<Rightarrow> buffer \<Rightarrow> unit js \<times> world" where
  "writeFile w outPath buf =
     (case fs_writeFile w outPath of
        Some e \<Rightarrow> (Inl e, w)
      | None \<Rightarrow> (Inr (), w\<lparr>written := written w @ [(outPath, buf)]\<rparr>))"

definition console_warn :: "world \<Rightarrow> string \<Rightarrow> world" where
  "console_warn w line = w\<lparr>warnings := warnings w @ [line]\<rparr>"

subsection \<open>extFromContentType, extFromUrl\<close>

definition extFromContentType :: "string option \<Rightarrow> string option" where
  "extFromContentType contentType =
     (case contentType of
        None \<Rightarrow> None
      | Some ct \<Rightarrow>
          if ct = [] then None
          else (let mime = toLowerCase (trim (hd (split_sep (CHR '';'') ct)))
                in if mime = ''image/jpeg'' then Some ''.jpg''
                   else if mime = ''image/png'' then Some ''.png''
                   else if mime = ''image/gif'' then Some ''.gif''
                   else if mime = ''image/webp'' then Some ''.webp''
                   else if mime = ''image/bmp'' then Some ''.bmp''
                   else None))"

definition extFromUrl :: "runtime \<Rightarrow> string \<Rightarrow> string option" where
  "extFromUrl rt rawUrl =
     (case URL_pathname rt rawUrl of
        None \<Rightarrow> None
      | Some pathname \<Rightarrow>
          (let ext = toLowerCase (path_extname rt pathname)
           in if ext \<in> set [''.jpg'', ''.jpeg'', ''.png'', ''.gif'', ''.webp'', ''.bmp'']
              then Some (if ext = ''.jpeg'' then ''.jpg'' else ext)
              else None))"

subsection \<open>writeTempImageFile\<close>

text \<open>
  \<open>messageId\<close> is the string the template literal renders; \<open>index\<close> a natural number.
  \<open>temp_image_path\<close> is \<open>outPath\<close>, with \<open>Date.now()\<close> as its first argument.
\<close>

definition temp_image_path :: "nat \<Rightarrow> string \<Rightarrow> nat \<Rightarrow> string \<Rightarrow> string" where
  "temp_image_path now messageId index extHint =
     (let safeExt = (if startsWith extHint ''.'' then extHint else ''.jpg'');
          name = QQ_TMP_PREFIX @ messageId @ ''_'' @ string_of_nat now @ ''_''
                   @ string_of_nat index @ safeExt
      in path_join_tmp name)"

definition writeTempImageFile ::
  "world \<Rightarrow> buffer \<Rightarrow> string \<Rightarrow> nat \<Rightarrow> string \<Rightarrow> string js \<times> world" where
  "writeTempImageFile w buf messageId index extHint =
     (let outPath = temp_image_path (Date_now w) messageId index extHint
      in case writeFile w outPath buf of
           (Inl e, w') \<Rightarrow> (Inl e, w')
         | (Inr u, w') \<Rightarrow> (Inr outPath, w'))"

subsection \<open>materializeImageForVision\<close>

text \<open>\<open>len !== null && len > MAX_VISION_IMAGE_BYTES\<close>.\<close>

definition over_limit :: "jsnum option \<Rightarrow> bool" where
  "over_limit len =
     (case len of None \<Rightarrow> False | Some l \<Rightarrow> js_gt l (of_nat MAX_VISION_IMAGE_BYTES))"

text \<open>
  The body of the outer \<open>try\<close>, branch by branch in the order of the source. \<open>Inl\<close> is
  what the block throws to the \<open>catch\<close>. The two abort timers are not state of their own:
  an abort shows as a \<open>fetch\<close> or a \<open>read\<close> that throws.
\<close>

definition try_base64 ::
  "world \<Rightarrow> string \<Rightarrow> string \<Rightarrow> nat \<Rightarrow> string option js \<times> world" where
  "try_base64 w rawUrl messageId index =
     (let encoded = slice_from (length ''base64://'') rawUrl
      in if encoded = [] then (Inr None, w)
         else (let buf = Buffer_from_base64 encoded
               in if length buf = 0 \<or> length buf > MAX_VISION_IMAGE_BYTES then (Inr None, w)
                  else (case writeTempImageFile w buf messageId index ''.jpg'' of
                          (Inl e, w') \<Rightarrow> (Inl e, w')
                        | (Inr p, w') \<Rightarrow> (Inr (Some p), w'))))"

definition try_file_url :: "runtime \<Rightarrow> world \<Rightarrow> string \<Rightarrow> string option js \<times> world" where
  "try_file_url rt w rawUrl =
     (case decodeURIComponent rt (slice_from (length ''file://'') rawUrl) of
        Inl e \<Rightarrow> (Inl e, w)
      | Inr localPath \<Rightarrow>
          if localPath = [] then (Inr None, w)
          else (case fs_stat w localPath of
                  None \<Rightarrow> (Inr None, w)
                | Some st \<Rightarrow>
                    if \<not> isFile st \<or> size_bytes st > MAX_VISION_IMAGE_BYTES
                    then (Inr None, w)
                    else (Inr (Some localPath), w)))"

definition try_absolute_path :: "world \<Rightarrow> string \<Rightarrow> string option js \<times> world" where
  "try_absolute_path w rawUrl =
     (case fs_stat w rawUrl of
        None \<Rightarrow> (Inr None, w)
      | Some st \<Rightarrow>
          if \<not> isFile st \<or> size_bytes st > MAX_VISION_IMAGE_BYTES
          then (Inr None, w)
          else (Inr (Some rawUrl), w))"

text \<open>The HEAD request: true when it makes the function return null.\<close>

definition head_rejects :: "runtime \<Rightarrow> response js \<Rightarrow> bool" where
  "head_rejects rt headRes =
     (case headRes of
        Inl e \<Rightarrow> False
      | Inr r \<Rightarrow> ok r \<and> over_limit (parseContentLength rt (headers r)))"

text \<open>
  \<open>extFromContentType(res.headers.get("content-type")) || extFromUrl(rawUrl) || ".jpg"\<close>:
  the second operand is evaluated only when the first is null.
\<close>

definition response_ext :: "runtime \<Rightarrow> response \<Rightarrow> string \<Rightarrow> string" where
  "response_ext rt res rawUrl =
     (case extFromContentType (headers res ''content-type'') of
        Some e \<Rightarrow> e
      | None \<Rightarrow> (case extFromUrl rt rawUrl of Some e \<Rightarrow> e | None \<Rightarrow> ''.jpg''))"

definition try_network ::
  "runtime \<Rightarrow> world \<Rightarrow> string \<Rightarrow> string \<Rightarrow> nat \<Rightarrow> string option js \<times> world" where
  "try_network rt w rawUrl messageId index =
     (case do_fetch w HEAD rawUrl of
        (headRes, w1) \<Rightarrow>
          if head_rejects rt headRes then (Inr None, w1)
          else (case do_fetch w1 GET rawUrl of
                  (Inl e, w2) \<Rightarrow> (Inl e, w2)
                | (Inr res, w2) \<Rightarrow>
                    if \<not> ok res then (Inr None, w2)
                    else if over_limit (parseContentLength rt (headers res))
                    then (Inr None, w2)
                    else (case fst (readResponseBodyWithLimit res MAX_VISION_IMAGE_BYTES
                                      (Some \<lparr>aborted = False\<rparr>)) of
                            Inl e \<Rightarrow> (Inl e, w2)
                          | Inr None \<Rightarrow> (Inr None, w2)
                          | Inr (Some b) \<Rightarrow>
                              if length b = 0 then (Inr None, w2)
                              else (let ext = response_ext rt res rawUrl
                                    in case writeTempImageFile w2 b messageId index ext of
                                         (Inl e, w') \<Rightarrow> (Inl e, w')
                                       | (Inr p, w') \<Rightarrow> (Inr (Some p), w')))))"

definition materializeImageForVision_try ::
  "runtime \<Rightarrow> world \<Rightarrow> string \<Rightarrow> string \<Rightarrow> nat \<Rightarrow> string option js \<times> world" where
  "materializeImageForVision_try rt w rawUrl messageId index =
     (if startsWith rawUrl ''base64://'' then try_base64 w rawUrl messageId index
      else if startsWith rawUrl ''file://'' then try_file_url rt w rawUrl
      else if startsWith rawUrl ''/'' then try_absolute_path w rawUrl
      else if \<not> startsWith rawUrl ''http://'' \<and> \<not> startsWith rawUrl ''https://''
      then (Inr None, w)
      else try_network rt w rawUrl messageId index)"

text \<open>
  The function: the guard before the \<open>try\<close>, and the \<open>catch\<close> that warns and returns null.
  The result keeps the type of an awaited call, so that a throw to the caller would be a
  value \<open>Inl\<close>.
\<close>

definition materializeImageForVision ::
  "runtime \<Rightarrow> world \<Rightarrow> string \<Rightarrow> string \<Rightarrow> nat \<Rightarrow> string option js \<times> world" where
  "materializeImageForVision rt w rawUrl messageId index =
     (if rawUrl = [] then (Inr None, w)
      else (case materializeImageForVision_try rt w rawUrl messageId index of
              (Inl e, w') \<Rightarrow>
                (Inr None, console_warn w' (''[QQ] Failed to prepare image for vision: '' @ e))
            | (Inr v, w') \<Rightarrow> (Inr v, w')))"

subsection \<open>downloadImageUrlAsBase64\<close>



subsection \<open>The retrieval as the specification words it\<close>

text \<open>
  The specification describes one retrieval, shared by the network branch of
  \<open>materializeImageForVision\<close> and by \<open>downloadImageUrlAsBase64\<close>: issue a GET; fail on a status
  that is not a success; fail when the declared size exceeds the maximum; stream the body
  and fail the moment the bytes received exceed the maximum; a transfer that breaks off is
  an error; an empty body is a failure. \<open>spec_get_with_limit\<close> is that description, written
  from the specification's words and not from the code: \<open>Inl\<close> an error, \<open>Inr None\<close> a
  failure, \<open>Inr (Some b)\<close> the bytes retrieved. The two functions of the code are compared
  with it below.
\<close>

definition spec_get_with_limit :: "runtime \<Rightarrow> world \<Rightarrow> string \<Rightarrow> buffer option js" where
  "spec_get_with_limit rt w url =
     (case fetch w GET url of
        Inl e \<Rightarrow> Inl e
      | Inr res \<Rightarrow>
          if \<not> ok res then Inr None
          else if over_limit (parseContentLength rt (headers res)) then Inr None
          else (let chunks = (case body res of None \<Rightarrow> [] | Some s \<Rightarrow> delivered s)
                in if MAX_VISION_IMAGE_BYTES < length (concat chunks) then Inr None
                   else (case (case body res of None \<Rightarrow> None | Some s \<Rightarrow> stream_error s) of
                           Some e \<Rightarrow> Inl e
                         | None \<Rightarrow>
                             if concat chunks = [] then Inr None
                             else Inr (Some (concat chunks)))))"

section \<open>scripts/qq-send-media-repro.mjs\<close>

subsection \<open>parseArgs\<close>



subsection \<open>Number.parseInt(group, 10)\<close>



definition digit_value :: "char \<Rightarrow> nat" where
  "digit_value c = (case index_of c ''0123456789'' of Some d \<Rightarrow> d | None \<Rightarrow> 0)"

definition digits_value :: "string \<Rightarrow> nat" where
  "digits_value ds = foldl (\<lambda>acc c. 10 * acc + digit_value c) 0 ds"



subsection \<open>main and the exit code\<close>










subsection \<open>The correlator: pending requests, timers and promises\<close>

datatype json =
    JNull
  | JBool bool
  | JNum rat
  | JStr string
  | JArr "json list"
  | JObj "(string \<times> json) list"

text \<open>
  \<open>payload?.echo\<close>: the property of an object, undefined (\<open>None\<close>) for every other value.
  \<open>truthy\<close> is the test of \<open>&&\<close>. \<open>pending.has\<close> finds string keys only.
\<close>

fun echo_of :: "json \<Rightarrow> json option" where
  "echo_of (JObj kvs) = map_of kvs ''echo''"
| "echo_of _ = None"

fun truthy :: "json option \<Rightarrow> bool" where
  "truthy None = False"
| "truthy (Some JNull) = False"
| "truthy (Some (JBool b)) = b"
| "truthy (Some (JNum q)) = (q \<noteq> 0)"
| "truthy (Some (JStr s)) = (s \<noteq> [])"
| "truthy (Some (JArr xs)) = True"
| "truthy (Some (JObj kvs)) = True"

datatype settlement = Resolved json | Rejected string

record timer =
  deadline :: nat
  timer_action :: string
  timer_echo :: string

datatype console_line = Out string json string | In json | NON_JSON string

text \<open>
  The state of the script between \<open>ws.on("open")\<close> and \<open>ws.close()\<close>. Calls are numbered by
  the value of \<open>seq\<close> they took. \<open>pending\<close> is the \<open>Map\<close>: the resolver stored under a token
  is named by its call. \<open>timers\<close> holds the timer of a call while it is neither fired nor
  cleared. \<open>promises\<close> holds how a call's promise was settled, nothing while it is not.
  \<open>clock\<close> is \<open>Date.now()\<close>.
\<close>

record correlator =
  clock :: nat
  seq :: nat
  pending :: "string \<rightharpoonup> nat"
  timers :: "nat \<rightharpoonup> timer"
  promises :: "nat \<rightharpoonup> settlement"
  sent :: "(string \<times> json \<times> string) list"
  console :: "console_line list"

definition initial :: "nat \<Rightarrow> correlator" where
  "initial now =
     \<lparr>clock = now, seq = 0, pending = Map.empty, timers = Map.empty, promises = Map.empty,
      sent = [], console = []\<rparr>"

definition make_echo :: "nat \<Rightarrow> nat \<Rightarrow> string" where
  "make_echo now n = ''repro_'' @ string_of_nat now @ ''_'' @ string_of_nat n"

definition timeout_of :: "nat option \<Rightarrow> nat" where
  "timeout_of timeoutMs = (case timeoutMs of None \<Rightarrow> 25000 | Some t \<Rightarrow> t)"

text \<open>
  \<open>setTimeout(callback, delay)\<close> of Node.js: a delay below 1 or above 2147483647 is set
  to 1.
\<close>

definition timer_delay :: "nat \<Rightarrow> nat" where
  "timer_delay ms = (if ms < 1 \<or> ms > 2147483647 then 1 else ms)"

text \<open>\<open>resolve\<close> and \<open>reject\<close> settle a promise once; later calls change nothing.\<close>

definition settle :: "nat \<Rightarrow> settlement \<Rightarrow> correlator \<Rightarrow> correlator" where
  "settle k v s =
     (case promises s k of
        None \<Rightarrow> s\<lparr>promises := (promises s)(k \<mapsto> v)\<rparr>
      | Some old \<Rightarrow> s)"

text \<open>
  \<open>call(action, params, timeoutMs)\<close> up to the point where it awaits: the token, the log
  line, the send, the timer, the entry in \<open>pending\<close>.
\<close>

definition call :: "correlator \<Rightarrow> string \<Rightarrow> json \<Rightarrow> nat option \<Rightarrow> correlator" where
  "call s action params timeoutMs =
     (let k = seq s;
          echo = make_echo (clock s) k
      in s\<lparr>seq := Suc k,
           console := console s @ [Out action params echo],
           sent := sent s @ [(action, params, echo)],
           timers := (timers s)(k \<mapsto>
             \<lparr>deadline = clock s + timer_delay (timeout_of timeoutMs), timer_action = action,
              timer_echo = echo\<rparr>),
           pending := (pending s)(echo \<mapsto> k)\<rparr>)"

text \<open>The resolver stored in \<open>pending\<close>: \<open>clearTimeout(timer); resolve(resp)\<close>.\<close>

definition done_call :: "nat \<Rightarrow> json \<Rightarrow> correlator \<Rightarrow> correlator" where
  "done_call k resp s = settle k (Resolved resp) (s\<lparr>timers := (timers s)(k := None)\<rparr>)"

text \<open>
  The handler of \<open>message\<close>. \<open>parse\<close> is \<open>JSON.parse(raw.toString())\<close>, \<open>None\<close> when it throws.
\<close>

definition on_message :: "(string \<Rightarrow> json option) \<Rightarrow> correlator \<Rightarrow> string \<Rightarrow> correlator" where
  "on_message parse s raw =
     (case parse raw of
        None \<Rightarrow> s\<lparr>console := console s @ [NON_JSON raw]\<rparr>
      | Some payload \<Rightarrow>
          (let s1 = s\<lparr>console := console s @ [In payload]\<rparr>
           in if truthy (echo_of payload)
              then (case echo_of payload of
                      Some (JStr e) \<Rightarrow>
                        (case pending s1 e of
                           None \<Rightarrow> s1
                         | Some k \<Rightarrow> done_call k payload (s1\<lparr>pending := (pending s1)(e := None)\<rparr>))
                    | _ \<Rightarrow> s1)
              else s1))"

text \<open>
  The callback of the timer of call \<open>k\<close>, run when the timer fires: it has no effect once
  the timer is cleared, for it is then never run.
\<close>

definition fire :: "correlator \<Rightarrow> nat \<Rightarrow> correlator" where
  "fire s k =
     (case timers s k of
        None \<Rightarrow> s
      | Some t \<Rightarrow>
          settle k
            (Rejected (''timeout action='' @ timer_action t @ '' echo='' @ timer_echo t))
            (s\<lparr>timers := (timers s)(k := None),
               pending := (pending s)(timer_echo t := None)\<rparr>))"

text \<open>
  Time passing: the clock moves on and the timers that are due fire, the earlier deadline
  first. A timer fires as soon as the clock has reached its deadline.
\<close>

definition due :: "correlator \<Rightarrow> nat list" where
  "due s =
     sort_key (\<lambda>k. case timers s k of None \<Rightarrow> 0 | Some t \<Rightarrow> deadline t)
       (filter (\<lambda>k. case timers s k of None \<Rightarrow> False | Some t \<Rightarrow> deadline t \<le> clock s)
          [0..<seq s])"

definition advance :: "correlator \<Rightarrow> nat \<Rightarrow> correlator" where
  "advance s d = (let s1 = s\<lparr>clock := clock s + d\<rparr> in foldl fire s1 (due s1))"

datatype event = Call string json "nat option" | Inbound string | Elapse nat

fun step :: "(string \<Rightarrow> json option) \<Rightarrow> correlator \<Rightarrow> event \<Rightarrow> correlator" where
  "step parse s (Call action params timeoutMs) = call s action params timeoutMs"
| "step parse s (Inbound raw) = on_message parse s raw"
| "step parse s (Elapse d) = advance s d"

definition run :: "(string \<Rightarrow> json option) \<Rightarrow> correlator \<Rightarrow> event list \<Rightarrow> correlator" where
  "run parse s evs = foldl (step parse) s evs"

text \<open>The time a list of events takes, and whether an event carries the token \<open>e\<close>.\<close>

fun elapsed :: "event list \<Rightarrow> nat" where
  "elapsed [] = 0"
| "elapsed (Elapse d # evs) = d + elapsed evs"
| "elapsed (ev # evs) = elapsed evs"

fun carries :: "(string \<Rightarrow> json option) \<Rightarrow> string \<Rightarrow> event \<Rightarrow> bool" where
  "carries parse e (Inbound raw) =
     (case parse raw of None \<Rightarrow> False | Some payload \<Rightarrow> echo_of payload = Some (JStr e))"
| "carries parse e ev = False"

section \<open>A platform and surroundings for the examples\<close>

text \<open>
  The properties below hold for every runtime and every world. The examples run in this
  one. \<open>example_runtime\<close> is the platform at the strings the examples use; the world has
  four entries in its file system, a server that answers four URLs, and a \<open>data:\<close> URL
  that \<open>fetch\<close> serves.
\<close>

definition hello :: buffer where
  "hello = [104, 101, 108, 108, 111]"

definition big_chunk :: buffer where
  "big_chunk = replicate (Suc MAX_VISION_IMAGE_BYTES) 0"

definition example_runtime :: runtime where
  "example_runtime =
     \<lparr>Number = (\<lambda>s. if s = ''5'' then Fin 5
                     else if s = ''20000000'' then Fin 20000000
                     else NaN),
      decodeURIComponent =
        (\<lambda>s. if s = ''/data/my%20cat.png'' then Inr ''/data/my cat.png''
              else if s = ''/data/%'' then Inl ''URIError: URI malformed''
              else Inr s),
      URL_pathname = (\<lambda>u. if u = ''https://img.example/cat.png'' then Some ''/cat.png'' else None),
      path_extname = (\<lambda>p. if p = ''/cat.png'' then ''.png'' else [])\<rparr>"

definition example_stat :: "string \<Rightarrow> stats option" where
  "example_stat p =
     (if p = ''/data/cat.png'' \<or> p = ''/data/my cat.png''
      then Some \<lparr>isFile = True, size_bytes = 2048\<rparr>
      else if p = ''/data'' then Some \<lparr>isFile = False, size_bytes = 4096\<rparr>
      else if p = ''/data/film.bin'' then Some \<lparr>isFile = True, size_bytes = 10485761\<rparr>
      else None)"

definition example_fetch :: "http_method \<Rightarrow> string \<Rightarrow> response js" where
  "example_fetch m url =
     (if url = ''https://img.example/cat.png'' then
        Inr \<lparr>ok = True,
             headers = [''content-type'' \<mapsto> ''image/png'', ''content-length'' \<mapsto> ''5''],
             body = (if m = GET then Some (Chunk hello Done) else None)\<rparr>
      else if url = ''https://img.example/huge.bin'' then
        Inr \<lparr>ok = True, headers = [''content-length'' \<mapsto> ''20000000''],
             body = (if m = GET then Some Done else None)\<rparr>
      else if url = ''https://img.example/nohead.bin'' \<and> m = GET then
        Inr \<lparr>ok = True, headers = [''content-length'' \<mapsto> ''20000000''], body = Some Done\<rparr>
      else if url = ''https://img.example/stream.bin'' \<and> m = GET then
        Inr \<lparr>ok = True, headers = Map.empty, body = Some (Chunk big_chunk Done)\<rparr>
      else if url = ''data:text/plain,hello'' \<and> m = GET then
        Inr \<lparr>ok = True, headers = [''content-type'' \<mapsto> ''text/plain''],
             body = Some (Chunk hello Done)\<rparr>
      else Inl ''TypeError: fetch failed'')"

definition example_world :: world where
  "example_world =
     \<lparr>fs_stat = example_stat,
      fs_writeFile = (\<lambda>p. None),
      written = [],
      fetch = example_fetch,
      requests = [],
      Date_now = 1000,
      warnings = []\<rparr>"


text \<open>
  The reply of the scenario, \<open>{"echo":"repro_1000_0","status":"ok"}\<close> (\<open>CHR 0x22\<close> is the
  double quote), and a \<open>JSON.parse\<close> that knows this one text.
\<close>

definition example_reply :: string where
  "example_reply = ''{'' @ [CHR 0x22] @ ''echo'' @ [CHR 0x22] @ '':'' @ [CHR 0x22] @ ''repro_1000_0''
               @ [CHR 0x22] @ '','' @ [CHR 0x22] @ ''status'' @ [CHR 0x22] @ '':'' @ [CHR 0x22]
               @ ''ok'' @ [CHR 0x22] @ ''}''"

definition example_parse :: "string \<Rightarrow> json option" where
  "example_parse raw =
     (if raw = example_reply
      then Some (JObj [(''echo'', JStr ''repro_1000_0''), (''status'', JStr ''ok'')])
      else None)"

section \<open>Invariants of the correlator\<close>

text \<open>
  What holds in every state the script can reach: a timer that is neither fired nor cleared
  belongs to a call already made, whose token is in \<open>pending\<close> under that call and whose
  promise is not settled; every entry of \<open>pending\<close> has such a timer; only calls already
  made are settled.
\<close>

definition wf :: "correlator \<Rightarrow> bool" where
  "wf s =
     ((\<forall>k t. timers s k = Some t \<longrightarrow>
         k < seq s \<and> pending s (timer_echo t) = Some k \<and> promises s k = None
         \<and> (\<exists>now. timer_echo t = make_echo now k))
      \<and> (\<forall>e k. pending s e = Some k \<longrightarrow> (\<exists>t. timers s k = Some t \<and> timer_echo t = e))
      \<and> (\<forall>k v. promises s k = Some v \<longrightarrow> k < seq s))"

text \<open>
  Call \<open>k\<close>, whose token is \<open>e\<close>, is settled with \<open>v\<close>, its token is out of the map and its
  timer is gone.
\<close>

definition settled :: "correlator \<Rightarrow> nat \<Rightarrow> string \<Rightarrow> settlement \<Rightarrow> bool" where
  "settled s k e v =
     (promises s k = Some v \<and> pending s e = None \<and> timers s k = None \<and> k < seq s
      \<and> (\<exists>now. e = make_echo now k))"

section \<open>Properties of readResponseBodyWithLimit\<close>

lemma Buffer_concat_exact:
  "received = length (concat chunks) \<Longrightarrow> Buffer_concat chunks received = concat chunks"
  by (simp add: Buffer_concat_def)

lemma read_loop_null_iff:
  "received = length (concat chunks) \<Longrightarrow> received \<le> maxBytes \<Longrightarrow>
   (fst (read_loop s maxBytes chunks received ctl) = Inr None) =
   (maxBytes < received + length (concat (delivered s)))"
proof (induction s arbitrary: chunks received)
  case Done
  then show ?case by simp
next
  case (Failed e)
  then show ?case by simp
next
  case (Chunk v s)
  show ?case
  proof (cases "maxBytes < received + length v")
    case True
    then show ?thesis by simp
  next
    case False
    have inv: "received + length v = length (concat (chunks @ [v]))"
      using Chunk.prems by simp
    have le: "received + length v \<le> maxBytes"
      using False by simp
    from Chunk.IH [OF inv le] False show ?thesis
      by (simp add: Let_def add.assoc)
  qed
next
  case (NoValue s)
  then show ?case by simp
qed

lemma read_loop_buffer:
  "received = length (concat chunks) \<Longrightarrow> received \<le> maxBytes \<Longrightarrow>
   fst (read_loop s maxBytes chunks received ctl) = Inr (Some b) \<Longrightarrow>
   b = concat chunks @ concat (delivered s) \<and> completes s
     \<and> received + length (concat (delivered s)) \<le> maxBytes"
proof (induction s arbitrary: chunks received)
  case Done
  then show ?case by (simp add: Buffer_concat_exact)
next
  case (Failed e)
  then show ?case by simp
next
  case (Chunk v s)
  have le: "\<not> maxBytes < received + length v"
    using Chunk.prems(3) by (auto simp: Let_def split: if_splits)
  then have le': "received + length v \<le> maxBytes"
    by simp
  have inv: "received + length v = length (concat (chunks @ [v]))"
    using Chunk.prems(1) by simp
  have run: "fst (read_loop s maxBytes (chunks @ [v]) (received + length v) ctl) = Inr (Some b)"
    using Chunk.prems(3) le by (simp add: Let_def)
  from Chunk.IH [OF inv le' run] show ?case by (simp add: add.assoc)
next
  case (NoValue s)
  then show ?case by simp
qed

lemma read_loop_controller:
  "snd (read_loop s maxBytes chunks received ctl) =
     (if fst (read_loop s maxBytes chunks received ctl) = Inr None
      then map_option abort ctl else ctl)"
  by (induction s arbitrary: chunks received) (auto simp: Let_def)

section \<open>Properties of the base64 codec and of path.join\<close>

lemma m63: "(63::byte) = mask 6" and m48: "(48::byte) = push_bit 4 (mask 2)" and m60: "(60::byte) = push_bit 2 (mask 4)"
  and m15: "(15::byte) = mask 4" and m3: "(3::byte) = mask 2"
  by (simp_all add: mask_eq_exp_minus_1)

lemma byte_eqI:
  assumes "\<And>n. n \<in> {0, 1, 2, 3, 4, 5, 6, 7} \<Longrightarrow> bit a n = bit b n"
  shows "a = (b::byte)"
proof (rule bit_word_eqI)
  fix n assume "n < LENGTH(8)"
  then have "n \<in> {0, 1, 2, 3, 4, 5, 6, 7}" by auto
  then show "bit a n = bit b n" by (rule assms)
qed

lemma sextet_first: "push_bit 2 (drop_bit 2 a AND 63) OR drop_bit 4 ((push_bit 4 (a AND 3) OR drop_bit 4 b) AND 48) = (a::byte)"
  unfolding m63 m48 m3
  by (rule byte_eqI) (auto simp: bit_simps simp flip: numeral_2_eq_2 numeral_3_eq_3)

lemma sextet_first_last: "push_bit 2 (drop_bit 2 a AND 63) OR drop_bit 4 (push_bit 4 (a AND 3) AND 48) = (a::byte)"
  unfolding m63 m48 m3
  by (rule byte_eqI) (auto simp: bit_simps simp flip: numeral_2_eq_2 numeral_3_eq_3)

lemma sextet_second: "push_bit 4 ((push_bit 4 (a AND 3) OR drop_bit 4 b) AND 15) OR drop_bit 2 ((push_bit 2 (b AND 15) OR drop_bit 6 c) AND 60) = (b::byte)"
  unfolding m15 m60 m3
  by (rule byte_eqI) (auto simp: bit_simps)

lemma sextet_second_last: "push_bit 4 ((push_bit 4 (a AND 3) OR drop_bit 4 b) AND 15) OR drop_bit 2 (push_bit 2 (b AND 15) AND 60) = (b::byte)"
  unfolding m15 m60 m3
  by (rule byte_eqI) (auto simp: bit_simps)

lemma sextet_third: "push_bit 6 ((push_bit 2 (b AND 15) OR drop_bit 6 c) AND 3) OR ((c AND 63) AND 63) = (c::byte)"
  unfolding m63 m3 m15
  by (rule byte_eqI) (auto simp: bit_simps)

lemma sextet_masked:
  "drop_bit 2 (a::byte) AND 63 = drop_bit 2 a"
  "(push_bit 4 (a AND 3) OR drop_bit 4 b) AND 63 = push_bit 4 (a AND 3) OR drop_bit 4 b"
  "(push_bit 2 (b AND 15) OR drop_bit 6 c) AND 63 = push_bit 2 (b AND 15) OR drop_bit 6 c"
  "push_bit 4 (a AND 3) AND 63 = push_bit 4 (a AND 3)"
  "push_bit 2 (b AND 15) AND 63 = push_bit 2 (b AND 15)"
  "(c AND 63) AND 63 = c AND 63"
  unfolding m63 m3 m15
  by (rule byte_eqI; auto simp: bit_simps dest: bit_imp_le_length)+

lemma decode_encode_sextets: "decode_sextets (encode_sextets buf) = buf"
  by (induction buf rule: encode_sextets.induct)
     (simp_all only: encode_sextets.simps decode_sextets.simps
        sextet_first sextet_first_last sextet_second sextet_second_last sextet_third)

lemma encode_sextets_masked: "map (\<lambda>v. v AND 63) (encode_sextets buf) = encode_sextets buf"
  by (induction buf rule: encode_sextets.induct)
     (simp_all only: encode_sextets.simps list.map sextet_masked)

lemma index_of_nth: "distinct xs \<Longrightarrow> i < length xs \<Longrightarrow> index_of (xs ! i) xs = Some i"
proof (induction xs arbitrary: i)
  case Nil
  then show ?case by simp
next
  case (Cons x xs)
  show ?case
  proof (cases i)
    case 0
    then show ?thesis by simp
  next
    case (Suc j)
    with Cons.prems have "xs ! j \<noteq> x" by auto
    with Cons Suc show ?thesis by auto
  qed
qed

lemma sextet_in_range: "unat ((v::byte) AND 63) < 64"
proof -
  have "unat (take_bit 6 v) < 2 ^ 6"
    unfolding unsigned_take_bit_eq by (rule take_bit_nat_less_exp)
  then show ?thesis by (simp add: m63 take_bit_eq_mask)
qed

lemma b64_char_in_alphabet: "b64_char v \<in> set b64_alphabet"
proof -
  have "unat (v AND 63) < length b64_alphabet"
    using sextet_in_range [of v] by (simp add: b64_alphabet_def)
  then show ?thesis unfolding b64_char_def by (rule nth_mem)
qed

lemma b64_char_plain:
  "b64_char v \<noteq> CHR ''='' \<and> b64_char v \<noteq> CHR ''-'' \<and> b64_char v \<noteq> CHR ''_''"
  using b64_char_in_alphabet [of v] by (auto simp: b64_alphabet_def)

lemma unbase64_b64_char: "unbase64 (b64_char v) = Some (v AND 63)"
proof -
  have d: "distinct b64_alphabet"
    by (simp add: b64_alphabet_def)
  have l: "unat (v AND 63) < length b64_alphabet"
    using sextet_in_range [of v] by (simp add: b64_alphabet_def)
  have "index_of (b64_char v) b64_alphabet = Some (unat (v AND 63))"
    unfolding b64_char_def by (rule index_of_nth [OF d l])
  then show ?thesis
    using b64_char_plain [of v] by (simp add: unbase64_def)
qed

lemma map_filter_unbase64:
  "List.map_filter unbase64 (map b64_char vs) = map (\<lambda>v. v AND 63) vs"
  by (induction vs) (simp_all add: List.map_filter_simps unbase64_b64_char)

lemma takeWhile_padding:
  "takeWhile (\<lambda>c. c \<noteq> CHR ''='') (map b64_char vs @ replicate k (CHR ''='')) = map b64_char vs"
proof (induction vs)
  case Nil
  then show ?case by (cases k) simp_all
next
  case (Cons v vs)
  then show ?case using b64_char_plain [of v] by simp
qed

lemma Buffer_from_base64_toString: "Buffer_from_base64 (toString_base64 buf) = buf"
  by (simp add: Buffer_from_base64_def toString_base64_def takeWhile_padding
      map_filter_unbase64 encode_sextets_masked decode_encode_sextets)

lemma toString_base64_empty: "(toString_base64 buf = []) = (buf = [])"
  by (cases buf rule: encode_sextets.cases) (simp_all add: toString_base64_def)

lemma split_sep_nonempty: "split_sep c s \<noteq> []"
  by (induction s) (auto split: list.splits)

lemma split_sep_append:
  "c \<notin> set t \<Longrightarrow> split_sep c (s @ t) = butlast (split_sep c s) @ [last (split_sep c s) @ t]"
proof (induction s)
  case Nil
  then show ?case
  proof (induction t)
    case Nil
    then show ?case by simp
  next
    case (Cons x t)
    then show ?case by (auto split: list.splits simp: split_sep_nonempty)
  qed
next
  case (Cons x s)
  then show ?case
    by (auto split: list.splits simp: split_sep_nonempty)
qed

lemma normalizeString_snoc:
  "seg \<noteq> [] \<Longrightarrow> seg \<noteq> ''.'' \<Longrightarrow> seg \<noteq> ''..'' \<Longrightarrow>
   normalizeString res (segs @ [seg]) = normalizeString res segs @ [seg]"
  by (induction segs arbitrary: res) auto

lemma join_sep_snoc: "\<exists>d. join_sep c (segs @ [seg]) = d @ seg"
proof (induction segs)
  case Nil
  then show ?case by simp
next
  case (Cons s segs)
  then obtain d where d: "join_sep c (segs @ [seg]) = d @ seg" by blast
  have "join_sep c ((s # segs) @ [seg]) = s @ c # join_sep c (segs @ [seg])"
    by (cases "segs @ [seg]") simp_all
  then show ?case using d by simp
qed

lemma path_join_tmp_suffix:
  assumes t: "CHR ''/'' \<notin> set t" "CHR ''_'' \<in> set t" "t \<noteq> []" "last t \<noteq> CHR ''/''"
  shows "\<exists>d. path_join_tmp (n @ t) = d @ t"
proof -
  define joined where "joined = ''/tmp/'' @ n"
  define L where "L = last (split_sep (CHR ''/'') joined) @ t"
  have j: "(if n @ t = [] then ''/tmp'' else ''/tmp'' @ ''/'' @ (n @ t)) = joined @ t"
    using t by (simp add: joined_def)
  have sp: "split_sep (CHR ''/'') (joined @ t) = butlast (split_sep (CHR ''/'') joined) @ [L]"
    unfolding L_def by (rule split_sep_append [OF t(1)])
  have "CHR ''_'' \<in> set L"
    using t by (simp add: L_def)
  then have L: "L \<noteq> []" "L \<noteq> ''.''" "L \<noteq> ''..''"
    by auto
  obtain d where d: "join_sep (CHR ''/'')
      (normalizeString [] (butlast (split_sep (CHR ''/'') joined)) @ [L]) = d @ L"
    using join_sep_snoc by blast
  have la: "last (joined @ t) \<noteq> CHR ''/''"
    using t by simp
  have "path_join_tmp (n @ t) = ''/'' @ d @ L"
    unfolding path_join_tmp_def j using la L
    by (simp add: Let_def sp normalizeString_snoc [OF L] d)
  then show ?thesis by (simp add: L_def)
qed

section \<open>Properties of the dispatch on the form of the reference\<close>

lemma startsWith_Nil [simp]: "startsWith s []"
  by (simp add: startsWith_def)

lemma startsWith_Cons:
  "startsWith s (c # p) = (case s of [] \<Rightarrow> False | x # xs \<Rightarrow> x = c \<and> startsWith xs p)"
  by (cases s) (auto simp: startsWith_def)

lemma startsWith_append [simp]: "startsWith (p @ s) p"
  by (simp add: startsWith_def)

lemma slice_from_append [simp]: "slice_from (length p) (p @ s) = s"
  by (simp add: slice_from_def)

lemma file_not_base64: "startsWith s ''file://'' \<Longrightarrow> \<not> startsWith s ''base64://''"
  by (cases s) (auto simp: startsWith_Cons)

lemma slash_not_scheme:
  "startsWith s ''/'' \<Longrightarrow> \<not> startsWith s ''base64://'' \<and> \<not> startsWith s ''file://''"
  by (cases s) (auto simp: startsWith_Cons)

lemma http_not_local:
  "startsWith s ''http://'' \<or> startsWith s ''https://'' \<Longrightarrow>
   \<not> startsWith s ''base64://'' \<and> \<not> startsWith s ''file://'' \<and> \<not> startsWith s ''/''"
  by (cases s) (auto simp: startsWith_Cons)

lemma try_dispatch_file:
  "startsWith rawUrl ''file://'' \<Longrightarrow>
   materializeImageForVision_try rt w rawUrl messageId index = try_file_url rt w rawUrl"
  by (simp add: materializeImageForVision_try_def file_not_base64)

lemma try_dispatch_path:
  "startsWith rawUrl ''/'' \<Longrightarrow>
   materializeImageForVision_try rt w rawUrl messageId index = try_absolute_path w rawUrl"
  using slash_not_scheme [of rawUrl] by (simp add: materializeImageForVision_try_def)

lemma try_dispatch_network:
  "startsWith rawUrl ''http://'' \<or> startsWith rawUrl ''https://'' \<Longrightarrow>
   materializeImageForVision_try rt w rawUrl messageId index =
     try_network rt w rawUrl messageId index"
  using http_not_local [of rawUrl] by (auto simp add: materializeImageForVision_try_def)

lemma startsWith_nonempty: "startsWith s (c # p) \<Longrightarrow> s \<noteq> []"
  by (auto simp: startsWith_Cons)

lemma materialize_returns:
  "rawUrl \<noteq> [] \<Longrightarrow> materializeImageForVision_try rt w rawUrl messageId index = (Inr v, w') \<Longrightarrow>
   materializeImageForVision rt w rawUrl messageId index = (Inr v, w')"
  by (simp add: materializeImageForVision_def)

section \<open>Properties of writeTempImageFile and of the embedded-data branch\<close>

lemma writeTempImageFile_cases:
  "writeTempImageFile w buf messageId index extHint =
     (case fs_writeFile w (temp_image_path (Date_now w) messageId index extHint) of
        Some e \<Rightarrow> (Inl e, w)
      | None \<Rightarrow>
          (Inr (temp_image_path (Date_now w) messageId index extHint),
           w\<lparr>written := written w @ [(temp_image_path (Date_now w) messageId index extHint, buf)]\<rparr>))"
  by (simp add: writeTempImageFile_def writeFile_def Let_def split: option.splits)

lemma digit_char_digit: "d < 10 \<Longrightarrow> digit_char d \<in> set ''0123456789''"
  unfolding digit_char_def by (rule nth_mem) simp

lemma string_of_nat_digits: "set (string_of_nat n) \<subseteq> set ''0123456789''"
proof (induction n rule: string_of_nat.induct)
  case (1 n)
  show ?case
  proof (cases "n < 10")
    case True
    then show ?thesis
      using digit_char_digit [of n] by (subst string_of_nat.simps) simp
  next
    case False
    have "n mod 10 < 10" by simp
    then have "digit_char (n mod 10) \<in> set ''0123456789''" by (rule digit_char_digit)
    with 1 False show ?thesis
      by (subst string_of_nat.simps) simp
  qed
qed

lemma string_of_nat_no_slash: "CHR ''/'' \<notin> set (string_of_nat n)"
  using string_of_nat_digits [of n] by auto

lemma temp_image_path_jpg:
  "\<exists>d. temp_image_path now messageId index ''.jpg'' = d @ ''.jpg''"
proof -
  define t where "t = ''_'' @ string_of_nat index @ ''.jpg''"
  have t: "CHR ''/'' \<notin> set t" "CHR ''_'' \<in> set t" "t \<noteq> []" "last t \<noteq> CHR ''/''"
    using string_of_nat_no_slash [of index] by (simp_all add: t_def)
  obtain d where "path_join_tmp ((QQ_TMP_PREFIX @ messageId @ ''_'' @ string_of_nat now) @ t) = d @ t"
    using path_join_tmp_suffix [OF t] by blast
  then have "temp_image_path now messageId index ''.jpg'' = (d @ ''_'' @ string_of_nat index) @ ''.jpg''"
    by (simp add: temp_image_path_def t_def startsWith_def)
  then show ?thesis by blast
qed

lemma try_base64_writes:
  assumes "buf = Buffer_from_base64 (slice_from (length ''base64://'') rawUrl)"
    and "buf \<noteq> []" and "length buf \<le> MAX_VISION_IMAGE_BYTES"
    and "fs_writeFile w (temp_image_path (Date_now w) messageId index ''.jpg'') = None"
  shows "try_base64 w rawUrl messageId index =
     (Inr (Some (temp_image_path (Date_now w) messageId index ''.jpg'')),
      w\<lparr>written := written w @ [(temp_image_path (Date_now w) messageId index ''.jpg'', buf)]\<rparr>)"
proof -
  have "slice_from (length ''base64://'') rawUrl \<noteq> []"
    using assms(1,2) by (auto simp: Buffer_from_base64_def)
  then show ?thesis
    using assms by (simp add: try_base64_def Let_def writeTempImageFile_cases del: length_0_conv)
qed

lemma hello_decoded: "Buffer_from_base64 ''aGVsbG8='' = [104, 101, 108, 108, 111]"
  by code_simp


lemma example_temp_paths:
  "temp_image_path 1000 ''42'' 0 ''.jpg'' = ''/tmp/qq_vision_42_1000_0.jpg''"
  "temp_image_path 1000 ''7'' 2 ''.jpg'' = ''/tmp/qq_vision_7_1000_2.jpg''"
  "temp_image_path 1000 ''42'' 0 ''.png'' = ''/tmp/qq_vision_42_1000_0.png''"
  by code_simp+

section \<open>Properties of the retrieval: the code against the specification's words\<close>

lemma read_loop_outcome:
  "received = length (concat chunks) \<Longrightarrow> received \<le> maxBytes \<Longrightarrow>
   fst (read_loop s maxBytes chunks received ctl) =
     (if maxBytes < received + length (concat (delivered s)) then Inr None
      else (case stream_error s of
              Some e \<Rightarrow> Inl e
            | None \<Rightarrow> Inr (Some (concat chunks @ concat (delivered s)))))"
proof (induction s arbitrary: chunks received)
  case Done
  then show ?case by (simp add: Buffer_concat_exact)
next
  case (Failed e)
  then show ?case by simp
next
  case (Chunk v s)
  show ?case
  proof (cases "maxBytes < received + length v")
    case True
    then show ?thesis by simp
  next
    case False
    have inv: "received + length v = length (concat (chunks @ [v]))"
      using Chunk.prems by simp
    have le: "received + length v \<le> maxBytes"
      using False by simp
    from Chunk.IH [OF inv le] False show ?thesis
      by (simp add: Let_def add.assoc cong: option.case_cong)
  qed
next
  case (NoValue s)
  then show ?case by (simp cong: option.case_cong)
qed

lemma readResponseBodyWithLimit_outcome:
  "fst (readResponseBodyWithLimit res maxBytes ctl) =
     (case body res of
        None \<Rightarrow> Inr (Some [])
      | Some s \<Rightarrow>
          if maxBytes < length (concat (delivered s)) then Inr None
          else (case stream_error s of
                  Some e \<Rightarrow> Inl e
                | None \<Rightarrow> Inr (Some (concat (delivered s)))))"
  using read_loop_outcome [of 0 "[]" maxBytes]
  by (simp add: readResponseBodyWithLimit_def split: option.splits)

lemma try_network_head_rejects:
  "head_rejects rt (fetch w HEAD url) \<Longrightarrow>
   try_network rt w url messageId index = (Inr None, w\<lparr>requests := requests w @ [(HEAD, url)]\<rparr>)"
  by (simp add: try_network_def do_fetch_def)

lemma spec_get_fetch_error:
  "fetch w GET url = Inl e \<Longrightarrow> spec_get_with_limit rt w url = Inl e"
  by (simp add: spec_get_with_limit_def)

lemma spec_get_response:
  "fetch w GET url = Inr res \<Longrightarrow>
   spec_get_with_limit rt w url =
     (if \<not> ok res \<or> over_limit (parseContentLength rt (headers res)) then Inr None
      else (case fst (readResponseBodyWithLimit res MAX_VISION_IMAGE_BYTES ctl) of
              Inl e \<Rightarrow> Inl e
            | Inr None \<Rightarrow> Inr None
            | Inr (Some b) \<Rightarrow> if length b = 0 then Inr None else Inr (Some b)))"
  by (cases "body res")
     (auto simp add: spec_get_with_limit_def readResponseBodyWithLimit_outcome Let_def
       simp del: concat_eq_Nil_conv split: option.splits)

lemma try_network_refines:
  assumes "\<not> head_rejects rt (fetch w HEAD url)"
  shows "try_network rt w url messageId index =
     (case spec_get_with_limit rt w url of
        Inl e \<Rightarrow> (Inl e, w\<lparr>requests := requests w @ [(HEAD, url), (GET, url)]\<rparr>)
      | Inr None \<Rightarrow> (Inr None, w\<lparr>requests := requests w @ [(HEAD, url), (GET, url)]\<rparr>)
      | Inr (Some b) \<Rightarrow>
          (case fetch w GET url of
             Inl e \<Rightarrow> (Inl e, w)
           | Inr res \<Rightarrow>
               (case writeTempImageFile (w\<lparr>requests := requests w @ [(HEAD, url), (GET, url)]\<rparr>)
                       b messageId index (response_ext rt res url) of
                  (Inl e, w') \<Rightarrow> (Inl e, w')
                | (Inr p, w') \<Rightarrow> (Inr (Some p), w'))))"
proof (cases "fetch w GET url")
  case (Inl e)
  then show ?thesis
    using assms by (simp add: try_network_def do_fetch_def spec_get_fetch_error)
next
  case (Inr res)
  show ?thesis
    using assms Inr
    by (simp add: try_network_def do_fetch_def
        spec_get_response [OF Inr, of rt "Some \<lparr>aborted = False\<rparr>"] Let_def
        split: sum.splits option.splits)
qed


lemma materialize_via_try:
  "rawUrl \<noteq> [] \<Longrightarrow>
   materializeImageForVision rt w rawUrl messageId index =
     (case materializeImageForVision_try rt w rawUrl messageId index of
        (Inl e, w') \<Rightarrow>
          (Inr None, console_warn w' (''[QQ] Failed to prepare image for vision: '' @ e))
      | (Inr v, w') \<Rightarrow> (Inr v, w'))"
  by (simp add: materializeImageForVision_def)

lemma http_nonempty:
  "startsWith rawUrl ''http://'' \<or> startsWith rawUrl ''https://'' \<Longrightarrow> rawUrl \<noteq> []"
  by (auto dest: startsWith_nonempty)

lemma spec_get_null_declared:
  "fetch w GET url = Inr r \<Longrightarrow> over_limit (parseContentLength rt (headers r)) \<Longrightarrow>
   spec_get_with_limit rt w url = Inr None"
  by (simp add: spec_get_with_limit_def)

lemma spec_get_null_streamed:
  "fetch w GET url = Inr r \<Longrightarrow> body r = Some s \<Longrightarrow>
   MAX_VISION_IMAGE_BYTES < length (concat (delivered s)) \<Longrightarrow>
   spec_get_with_limit rt w url = Inr None"
  by (simp add: spec_get_with_limit_def)

lemma over_limit_declared:
  "parseContentLength rt h = Some (Fin q) \<Longrightarrow> of_nat MAX_VISION_IMAGE_BYTES < q \<Longrightarrow>
   over_limit (parseContentLength rt h)"
  by (simp add: over_limit_def)

lemma network_null:
  assumes http: "startsWith rawUrl ''http://'' \<or> startsWith rawUrl ''https://''"
    and null: "head_rejects rt (fetch w HEAD rawUrl) \<or> spec_get_with_limit rt w rawUrl = Inr None"
  shows "fst (materializeImageForVision rt w rawUrl messageId index) = Inr None
     \<and> written (snd (materializeImageForVision rt w rawUrl messageId index)) = written w
     \<and> warnings (snd (materializeImageForVision rt w rawUrl messageId index)) = warnings w"
proof (cases "head_rejects rt (fetch w HEAD rawUrl)")
  case True
  then show ?thesis
    using http
    by (simp add: materialize_via_try [OF http_nonempty [OF http]] try_dispatch_network
        try_network_head_rejects)
next
  case False
  with null have "spec_get_with_limit rt w rawUrl = Inr None" by simp
  then show ?thesis
    using http False
    by (simp add: materialize_via_try [OF http_nonempty [OF http]] try_dispatch_network
        try_network_refines)
qed

lemma length_big_chunk: "length big_chunk = Suc MAX_VISION_IMAGE_BYTES"
  by (simp add: big_chunk_def)












section \<open>Claims on parseContentLength and readResponseBodyWithLimit\<close>



text \<open>
  C9. \<open>readResponseBodyWithLimit\<close> returns null exactly when the bytes read, chunk after
  chunk, come to exceed \<open>maxBytes\<close>: when the chunks the body delivers before it ends or
  fails hold more than \<open>maxBytes\<close> bytes. It then has aborted the controller it was given,
  and leaves the controller as it was in every other case. A buffer it returns is the
  concatenation of the chunks read and is at most \<open>maxBytes\<close> long. A response with no
  body gives the empty buffer, not null.
\<close>

theorem readResponseBodyWithLimit_null_iff_exceeds:
  "((fst (readResponseBodyWithLimit res maxBytes ctl) = Inr None) =
      (\<exists>s. body res = Some s \<and> maxBytes < length (concat (delivered s))))
   \<and> snd (readResponseBodyWithLimit res maxBytes ctl) =
       (if fst (readResponseBodyWithLimit res maxBytes ctl) = Inr None
        then map_option abort ctl else ctl)
   \<and> (fst (readResponseBodyWithLimit res maxBytes ctl) = Inr (Some b) \<longrightarrow>
        length b \<le> maxBytes
        \<and> b = concat (case body res of None \<Rightarrow> [] | Some s \<Rightarrow> delivered s))
   \<and> (body res = None \<longrightarrow> readResponseBodyWithLimit res maxBytes ctl = (Inr (Some []), ctl))"
proof (cases "body res")
  case None
  then show ?thesis
    by (auto simp: readResponseBodyWithLimit_def)
next
  case (Some s)
  have run: "readResponseBodyWithLimit res maxBytes ctl = read_loop s maxBytes [] 0 ctl"
    using Some by (simp add: readResponseBodyWithLimit_def)
  have null: "(fst (read_loop s maxBytes [] 0 ctl) = Inr None) =
      (maxBytes < length (concat (delivered s)))"
    using read_loop_null_iff [of 0 "[]" maxBytes s ctl] by simp
  have buf: "fst (read_loop s maxBytes [] 0 ctl) = Inr (Some b) \<longrightarrow>
      length b \<le> maxBytes \<and> b = concat (delivered s)"
    using read_loop_buffer [of 0 "[]" maxBytes s ctl b] by auto
  show ?thesis
    unfolding run using Some null buf read_loop_controller [of s maxBytes "[]" 0 ctl]
    by simp
qed

theorem readResponseBodyWithLimit_null_iff_exceeds_witness:
  "readResponseBodyWithLimit
     \<lparr>ok = True, headers = Map.empty, body = Some (Chunk [1, 2] (NoValue (Chunk [3] Done)))\<rparr>
     3 (Some \<lparr>aborted = False\<rparr>)
     = (Inr (Some [1, 2, 3]), Some \<lparr>aborted = False\<rparr>)
   \<and> length [1, 2, 3 :: byte] \<le> 3
   \<and> readResponseBodyWithLimit
     \<lparr>ok = True, headers = Map.empty, body = Some (Chunk [1, 2] (NoValue (Chunk [3] Done)))\<rparr>
     2 (Some \<lparr>aborted = False\<rparr>)
     = (Inr None, Some \<lparr>aborted = True\<rparr>)
   \<and> readResponseBodyWithLimit \<lparr>ok = True, headers = Map.empty, body = None\<rparr>
     0 (Some \<lparr>aborted = False\<rparr>)
     = (Inr (Some []), Some \<lparr>aborted = False\<rparr>)"
  using
    readResponseBodyWithLimit_null_iff_exceeds
      [of "\<lparr>ok = True, headers = Map.empty,
             body = Some (Chunk [1, 2] (NoValue (Chunk [3] Done)))\<rparr>"
          3 "Some \<lparr>aborted = False\<rparr>" "[1, 2, 3]"]
    readResponseBodyWithLimit_null_iff_exceeds
      [of "\<lparr>ok = True, headers = Map.empty,
             body = Some (Chunk [1, 2] (NoValue (Chunk [3] Done)))\<rparr>"
          2 "Some \<lparr>aborted = False\<rparr>" "[]"]
    readResponseBodyWithLimit_null_iff_exceeds
      [of "\<lparr>ok = True, headers = Map.empty, body = None\<rparr>"
          0 "Some \<lparr>aborted = False\<rparr>" "[]"]
  by (simp add: readResponseBodyWithLimit_def Buffer_concat_def abort_def)

section \<open>Claims on materializeImageForVision\<close>

text \<open>
  C5. A reference that starts with \<open>/\<close>, or a \<open>file://\<close> reference whose decoded path is not
  empty, that names an existing regular file of at most \<open>MAX_VISION_IMAGE_BYTES\<close> bytes is
  answered with that very path, and nothing is written, requested or logged: the world is
  the one the call started in. When \<open>stat\<close> fails, or the entry is not a regular file, or
  it is larger than the maximum, the answer is null, again in an unchanged world. So is
  the answer for \<open>/no/such/file.jpg\<close> where no such file exists.
\<close>

theorem local_file_returned_unchanged:
  "(startsWith rawUrl ''/'' \<and> fs_stat w rawUrl = Some st \<and> isFile st
      \<and> size_bytes st \<le> MAX_VISION_IMAGE_BYTES
      \<longrightarrow> materializeImageForVision rt w rawUrl messageId index = (Inr (Some rawUrl), w))
   \<and> (startsWith rawUrl ''/''
        \<and> (fs_stat w rawUrl = None
            \<or> fs_stat w rawUrl = Some st
               \<and> (\<not> isFile st \<or> MAX_VISION_IMAGE_BYTES < size_bytes st))
      \<longrightarrow> materializeImageForVision rt w rawUrl messageId index = (Inr None, w))
   \<and> (startsWith rawUrl ''file://''
        \<and> decodeURIComponent rt (slice_from (length ''file://'') rawUrl) = Inr localPath
        \<and> localPath \<noteq> [] \<and> fs_stat w localPath = Some st \<and> isFile st
        \<and> size_bytes st \<le> MAX_VISION_IMAGE_BYTES
      \<longrightarrow> materializeImageForVision rt w rawUrl messageId index = (Inr (Some localPath), w))
   \<and> (startsWith rawUrl ''file://''
        \<and> decodeURIComponent rt (slice_from (length ''file://'') rawUrl) = Inr localPath
        \<and> (localPath = [] \<or> fs_stat w localPath = None
            \<or> fs_stat w localPath = Some st
               \<and> (\<not> isFile st \<or> MAX_VISION_IMAGE_BYTES < size_bytes st))
      \<longrightarrow> materializeImageForVision rt w rawUrl messageId index = (Inr None, w))
   \<and> (fs_stat w ''/no/such/file.jpg'' = None
      \<longrightarrow> materializeImageForVision rt w ''/no/such/file.jpg'' messageId index = (Inr None, w))"
proof (intro conjI impI)
  assume a: "startsWith rawUrl ''/'' \<and> fs_stat w rawUrl = Some st \<and> isFile st
      \<and> size_bytes st \<le> MAX_VISION_IMAGE_BYTES"
  then have "materializeImageForVision_try rt w rawUrl messageId index = (Inr (Some rawUrl), w)"
    by (simp add: try_dispatch_path try_absolute_path_def)
  with a show "materializeImageForVision rt w rawUrl messageId index = (Inr (Some rawUrl), w)"
    by (intro materialize_returns) (auto dest: startsWith_nonempty)
next
  assume a: "startsWith rawUrl ''/''
        \<and> (fs_stat w rawUrl = None
            \<or> fs_stat w rawUrl = Some st
               \<and> (\<not> isFile st \<or> MAX_VISION_IMAGE_BYTES < size_bytes st))"
  then have "materializeImageForVision_try rt w rawUrl messageId index = (Inr None, w)"
    by (auto simp add: try_dispatch_path try_absolute_path_def)
  with a show "materializeImageForVision rt w rawUrl messageId index = (Inr None, w)"
    by (intro materialize_returns) (auto dest: startsWith_nonempty)
next
  assume a: "startsWith rawUrl ''file://''
        \<and> decodeURIComponent rt (slice_from (length ''file://'') rawUrl) = Inr localPath
        \<and> localPath \<noteq> [] \<and> fs_stat w localPath = Some st \<and> isFile st
        \<and> size_bytes st \<le> MAX_VISION_IMAGE_BYTES"
  then have "materializeImageForVision_try rt w rawUrl messageId index = (Inr (Some localPath), w)"
    by (simp add: try_dispatch_file try_file_url_def)
  with a show "materializeImageForVision rt w rawUrl messageId index = (Inr (Some localPath), w)"
    by (intro materialize_returns) (auto dest: startsWith_nonempty)
next
  assume a: "startsWith rawUrl ''file://''
        \<and> decodeURIComponent rt (slice_from (length ''file://'') rawUrl) = Inr localPath
        \<and> (localPath = [] \<or> fs_stat w localPath = None
            \<or> fs_stat w localPath = Some st
               \<and> (\<not> isFile st \<or> MAX_VISION_IMAGE_BYTES < size_bytes st))"
  then have "materializeImageForVision_try rt w rawUrl messageId index = (Inr None, w)"
    by (auto simp add: try_dispatch_file try_file_url_def)
  with a show "materializeImageForVision rt w rawUrl messageId index = (Inr None, w)"
    by (intro materialize_returns) (auto dest: startsWith_nonempty)
next
  assume a: "fs_stat w ''/no/such/file.jpg'' = None"
  have s: "startsWith ''/no/such/file.jpg'' ''/''"
    by (simp add: startsWith_def)
  have "materializeImageForVision_try rt w ''/no/such/file.jpg'' messageId index = (Inr None, w)"
    using a by (simp add: try_dispatch_path [OF s] try_absolute_path_def)
  then show "materializeImageForVision rt w ''/no/such/file.jpg'' messageId index = (Inr None, w)"
    by (intro materialize_returns) simp_all
qed

theorem local_file_returned_unchanged_witness:
  "materializeImageForVision example_runtime example_world ''/data/cat.png'' ''42'' 0
     = (Inr (Some ''/data/cat.png''), example_world)
   \<and> materializeImageForVision example_runtime example_world ''/data'' ''42'' 0
     = (Inr None, example_world)
   \<and> materializeImageForVision example_runtime example_world ''file:///data/my%20cat.png'' ''42'' 0
     = (Inr (Some ''/data/my cat.png''), example_world)
   \<and> materializeImageForVision example_runtime example_world ''file:///data/film.bin'' ''42'' 0
     = (Inr None, example_world)
   \<and> materializeImageForVision example_runtime example_world ''/no/such/file.jpg'' ''42'' 0
     = (Inr None, example_world)"
  using
    local_file_returned_unchanged [where rawUrl = "''/data/cat.png''" and w = example_world
      and st = "\<lparr>isFile = True, size_bytes = 2048\<rparr>" and rt = example_runtime
      and messageId = "''42''" and index = 0 and localPath = "''/data/my cat.png''"]
    local_file_returned_unchanged [where rawUrl = "''/data''" and w = example_world
      and st = "\<lparr>isFile = False, size_bytes = 4096\<rparr>" and rt = example_runtime
      and messageId = "''42''" and index = 0 and localPath = "[]"]
    local_file_returned_unchanged [where rawUrl = "''file:///data/my%20cat.png''"
      and w = example_world and st = "\<lparr>isFile = True, size_bytes = 2048\<rparr>"
      and rt = example_runtime and messageId = "''42''" and index = 0
      and localPath = "''/data/my cat.png''"]
    local_file_returned_unchanged [where rawUrl = "''file:///data/film.bin''"
      and w = example_world and st = "\<lparr>isFile = True, size_bytes = 10485761\<rparr>"
      and rt = example_runtime and messageId = "''42''" and index = 0
      and localPath = "''/data/film.bin''"]
  by (simp add: example_world_def example_runtime_def example_stat_def startsWith_def
      slice_from_def MAX_VISION_IMAGE_BYTES_def)

text \<open>
  C2 (as amended). For every \<open>base64://\<close> reference whose decoded bytes are not empty and
  at most \<open>MAX_VISION_IMAGE_BYTES\<close>, when the write is not rejected, the function returns
  the path of the temporary file and has written exactly the decoded bytes to it, and
  nothing else in the world has changed. Decoding is lossless: the reference made of
  \<open>base64://\<close> and the base64 text of any such bytes writes those very bytes. The reference
  \<open>base64://aGVsbG8=\<close> writes the five bytes of \<open>hello\<close>, and the path ends in \<open>.jpg\<close>.
\<close>

theorem base64_reference_written_losslessly:
  "(startsWith rawUrl ''base64://''
      \<and> buf = Buffer_from_base64 (slice_from (length ''base64://'') rawUrl)
      \<and> buf \<noteq> [] \<and> length buf \<le> MAX_VISION_IMAGE_BYTES
      \<and> p = temp_image_path (Date_now w) messageId index ''.jpg''
      \<and> fs_writeFile w p = None
      \<longrightarrow> materializeImageForVision rt w rawUrl messageId index
            = (Inr (Some p), w\<lparr>written := written w @ [(p, buf)]\<rparr>))
   \<and> (bytes \<noteq> [] \<and> length bytes \<le> MAX_VISION_IMAGE_BYTES
      \<and> p = temp_image_path (Date_now w) messageId index ''.jpg''
      \<and> fs_writeFile w p = None
      \<longrightarrow> materializeImageForVision rt w (''base64://'' @ toString_base64 bytes) messageId index
            = (Inr (Some p), w\<lparr>written := written w @ [(p, bytes)]\<rparr>))
   \<and> (p = temp_image_path (Date_now w) messageId index ''.jpg''
      \<and> fs_writeFile w p = None
      \<longrightarrow> materializeImageForVision rt w ''base64://aGVsbG8='' messageId index
            = (Inr (Some p), w\<lparr>written := written w @ [(p, [104, 101, 108, 108, 111])]\<rparr>)
          \<and> length [104, 101, 108, 108, 111 :: byte] = 5)
   \<and> (\<exists>d. temp_image_path (Date_now w) messageId index ''.jpg'' = d @ ''.jpg'')"
proof -
  have general: "materializeImageForVision rt w u messageId index
            = (Inr (Some p), w\<lparr>written := written w @ [(p, b)]\<rparr>)"
    if "startsWith u ''base64://''" "b = Buffer_from_base64 (slice_from (length ''base64://'') u)"
      "b \<noteq> []" "length b \<le> MAX_VISION_IMAGE_BYTES"
      "p = temp_image_path (Date_now w) messageId index ''.jpg''" "fs_writeFile w p = None"
    for u b
  proof -
    have "materializeImageForVision_try rt w u messageId index
            = (Inr (Some p), w\<lparr>written := written w @ [(p, b)]\<rparr>)"
      using that try_base64_writes [of b u w messageId index]
      by (simp add: materializeImageForVision_try_def)
    moreover have "u \<noteq> []"
      using that(1) by (auto dest: startsWith_nonempty)
    ultimately show ?thesis by (rule materialize_returns [rotated])
  qed
  have one: "startsWith rawUrl ''base64://''
      \<and> buf = Buffer_from_base64 (slice_from (length ''base64://'') rawUrl)
      \<and> buf \<noteq> [] \<and> length buf \<le> MAX_VISION_IMAGE_BYTES
      \<and> p = temp_image_path (Date_now w) messageId index ''.jpg''
      \<and> fs_writeFile w p = None
      \<longrightarrow> materializeImageForVision rt w rawUrl messageId index
            = (Inr (Some p), w\<lparr>written := written w @ [(p, buf)]\<rparr>)"
    using general [of rawUrl buf] by blast
  have two: "bytes \<noteq> [] \<and> length bytes \<le> MAX_VISION_IMAGE_BYTES
      \<and> p = temp_image_path (Date_now w) messageId index ''.jpg''
      \<and> fs_writeFile w p = None
      \<longrightarrow> materializeImageForVision rt w (''base64://'' @ toString_base64 bytes) messageId index
            = (Inr (Some p), w\<lparr>written := written w @ [(p, bytes)]\<rparr>)"
    using general [of "''base64://'' @ toString_base64 bytes" bytes]
      startsWith_append [of "''base64://''" "toString_base64 bytes"]
      slice_from_append [of "''base64://''" "toString_base64 bytes"]
    by (simp only: Buffer_from_base64_toString) blast
  have three: "p = temp_image_path (Date_now w) messageId index ''.jpg''
      \<and> fs_writeFile w p = None
      \<longrightarrow> materializeImageForVision rt w ''base64://aGVsbG8='' messageId index
            = (Inr (Some p), w\<lparr>written := written w @ [(p, [104, 101, 108, 108, 111])]\<rparr>)
          \<and> length [104, 101, 108, 108, 111 :: byte] = 5"
    using general [of "''base64://aGVsbG8=''" "[104, 101, 108, 108, 111]"]
    by (auto simp add: startsWith_def slice_from_def hello_decoded MAX_VISION_IMAGE_BYTES_def)
  show ?thesis
    using one two three temp_image_path_jpg [of "Date_now w" messageId index] by blast
qed

theorem base64_reference_written_losslessly_witness:
  "materializeImageForVision example_runtime example_world ''base64://aGVsbG8='' ''7'' 2
     = (Inr (Some ''/tmp/qq_vision_7_1000_2.jpg''),
        example_world\<lparr>written := [(''/tmp/qq_vision_7_1000_2.jpg'', [104, 101, 108, 108, 111])]\<rparr>)
   \<and> materializeImageForVision example_runtime example_world
       (''base64://'' @ toString_base64 [1, 2, 3, 4]) ''7'' 2
     = (Inr (Some ''/tmp/qq_vision_7_1000_2.jpg''),
        example_world\<lparr>written := [(''/tmp/qq_vision_7_1000_2.jpg'', [1, 2, 3, 4])]\<rparr>)"
  using
    base64_reference_written_losslessly [where rawUrl = "''base64://aGVsbG8=''"
      and buf = "[104, 101, 108, 108, 111]" and w = example_world and messageId = "''7''"
      and index = 2 and p = "''/tmp/qq_vision_7_1000_2.jpg''" and rt = example_runtime
      and bytes = "[1, 2, 3, 4]"]
  by (simp add: hello_decoded example_temp_paths example_world_def startsWith_def slice_from_def
      MAX_VISION_IMAGE_BYTES_def)

text \<open>
  The claim as it was stated gives the decoded content of \<open>base64://aGVsbG8=\<close> as 8 bytes.
  Eight is the length of the base64 text; the file written holds 5 bytes.
\<close>

theorem base64_hello_is_not_eight_bytes:
  "materializeImageForVision example_runtime example_world ''base64://aGVsbG8='' ''42'' 0
     = (Inr (Some ''/tmp/qq_vision_42_1000_0.jpg''),
        example_world\<lparr>written := [(''/tmp/qq_vision_42_1000_0.jpg'', [104, 101, 108, 108, 111])]\<rparr>)
   \<and> length [104, 101, 108, 108, 111 :: byte] \<noteq> 8"
proof -
  have "try_base64 example_world ''base64://aGVsbG8='' ''42'' 0
     = (Inr (Some ''/tmp/qq_vision_42_1000_0.jpg''),
        example_world\<lparr>written := [(''/tmp/qq_vision_42_1000_0.jpg'', [104, 101, 108, 108, 111])]\<rparr>)"
    using try_base64_writes [of "[104, 101, 108, 108, 111]" "''base64://aGVsbG8=''"
        example_world "''42''" 0]
    by (simp add: hello_decoded example_temp_paths example_world_def slice_from_def
        MAX_VISION_IMAGE_BYTES_def)
  then show ?thesis
    by (simp add: materializeImageForVision_def materializeImageForVision_try_def startsWith_def)
qed

text \<open>
  C1. An input larger than \<open>MAX_VISION_IMAGE_BYTES\<close> is answered with null and no file is
  written, however the excess shows: in the length of the decoded base64 text, in the
  size \<open>stat\<close> gives for a local file (the world is then unchanged altogether), in the
  \<open>content-length\<close> of a HEAD response that is ok or of the GET response, or in the bytes
  the GET body delivers. In the network cases the files written and the console are as
  before; only requests were issued.
\<close>

theorem oversized_input_returns_null_and_writes_nothing:
  "(startsWith rawUrl ''base64://''
      \<and> MAX_VISION_IMAGE_BYTES
          < length (Buffer_from_base64 (slice_from (length ''base64://'') rawUrl))
      \<longrightarrow> materializeImageForVision rt w rawUrl messageId index = (Inr None, w))
   \<and> (startsWith rawUrl ''file://''
        \<and> decodeURIComponent rt (slice_from (length ''file://'') rawUrl) = Inr localPath
        \<and> fs_stat w localPath = Some st \<and> MAX_VISION_IMAGE_BYTES < size_bytes st
      \<longrightarrow> materializeImageForVision rt w rawUrl messageId index = (Inr None, w))
   \<and> (startsWith rawUrl ''/''
        \<and> fs_stat w rawUrl = Some st \<and> MAX_VISION_IMAGE_BYTES < size_bytes st
      \<longrightarrow> materializeImageForVision rt w rawUrl messageId index = (Inr None, w))
   \<and> ((startsWith rawUrl ''http://'' \<or> startsWith rawUrl ''https://'')
        \<and> (fetch w HEAD rawUrl = Inr r \<and> ok r
              \<and> parseContentLength rt (headers r) = Some (Fin q)
              \<and> of_nat MAX_VISION_IMAGE_BYTES < q
            \<or> fetch w GET rawUrl = Inr r
              \<and> parseContentLength rt (headers r) = Some (Fin q)
              \<and> of_nat MAX_VISION_IMAGE_BYTES < q
            \<or> fetch w GET rawUrl = Inr r \<and> body r = Some s
              \<and> MAX_VISION_IMAGE_BYTES < length (concat (delivered s)))
      \<longrightarrow> fst (materializeImageForVision rt w rawUrl messageId index) = Inr None
          \<and> written (snd (materializeImageForVision rt w rawUrl messageId index)) = written w
          \<and> warnings (snd (materializeImageForVision rt w rawUrl messageId index)) = warnings w)"
proof (intro conjI impI)
  assume a: "startsWith rawUrl ''base64://''
      \<and> MAX_VISION_IMAGE_BYTES
          < length (Buffer_from_base64 (slice_from (length ''base64://'') rawUrl))"
  then have "slice_from (length ''base64://'') rawUrl \<noteq> []"
    by (auto simp: Buffer_from_base64_def)
  with a have "materializeImageForVision_try rt w rawUrl messageId index = (Inr None, w)"
    by (simp add: materializeImageForVision_try_def try_base64_def Let_def)
  with a show "materializeImageForVision rt w rawUrl messageId index = (Inr None, w)"
    by (intro materialize_returns) (auto dest: startsWith_nonempty)
next
  assume a: "startsWith rawUrl ''file://''
        \<and> decodeURIComponent rt (slice_from (length ''file://'') rawUrl) = Inr localPath
        \<and> fs_stat w localPath = Some st \<and> MAX_VISION_IMAGE_BYTES < size_bytes st"
  then have "materializeImageForVision_try rt w rawUrl messageId index = (Inr None, w)"
    by (simp add: try_dispatch_file try_file_url_def)
  with a show "materializeImageForVision rt w rawUrl messageId index = (Inr None, w)"
    by (intro materialize_returns) (auto dest: startsWith_nonempty)
next
  assume a: "startsWith rawUrl ''/''
        \<and> fs_stat w rawUrl = Some st \<and> MAX_VISION_IMAGE_BYTES < size_bytes st"
  then have "materializeImageForVision_try rt w rawUrl messageId index = (Inr None, w)"
    by (simp add: try_dispatch_path try_absolute_path_def)
  with a show "materializeImageForVision rt w rawUrl messageId index = (Inr None, w)"
    by (intro materialize_returns) (auto dest: startsWith_nonempty)
next
  assume a: "(startsWith rawUrl ''http://'' \<or> startsWith rawUrl ''https://'')
        \<and> (fetch w HEAD rawUrl = Inr r \<and> ok r
              \<and> parseContentLength rt (headers r) = Some (Fin q)
              \<and> of_nat MAX_VISION_IMAGE_BYTES < q
            \<or> fetch w GET rawUrl = Inr r
              \<and> parseContentLength rt (headers r) = Some (Fin q)
              \<and> of_nat MAX_VISION_IMAGE_BYTES < q
            \<or> fetch w GET rawUrl = Inr r \<and> body r = Some s
              \<and> MAX_VISION_IMAGE_BYTES < length (concat (delivered s)))"
  then have http: "startsWith rawUrl ''http://'' \<or> startsWith rawUrl ''https://''"
    by blast
  consider
      (head) "fetch w HEAD rawUrl = Inr r" "ok r"
        "parseContentLength rt (headers r) = Some (Fin q)" "of_nat MAX_VISION_IMAGE_BYTES < q"
    | (declared) "fetch w GET rawUrl = Inr r"
        "parseContentLength rt (headers r) = Some (Fin q)" "of_nat MAX_VISION_IMAGE_BYTES < q"
    | (streamed) "fetch w GET rawUrl = Inr r" "body r = Some s"
        "MAX_VISION_IMAGE_BYTES < length (concat (delivered s))"
    using a by blast
  then have "head_rejects rt (fetch w HEAD rawUrl) \<or> spec_get_with_limit rt w rawUrl = Inr None"
  proof cases
    case head
    then show ?thesis
      using over_limit_declared [of rt "headers r" q] by (simp add: head_rejects_def)
  next
    case declared
    then show ?thesis
      using over_limit_declared [of rt "headers r" q] spec_get_null_declared [of w rawUrl r rt]
      by simp
  next
    case streamed
    then show ?thesis
      using spec_get_null_streamed [of w rawUrl r s rt] by simp
  qed
  then have all: "fst (materializeImageForVision rt w rawUrl messageId index) = Inr None
          \<and> written (snd (materializeImageForVision rt w rawUrl messageId index)) = written w
          \<and> warnings (snd (materializeImageForVision rt w rawUrl messageId index)) = warnings w"
    by (rule network_null [OF http])
  show "fst (materializeImageForVision rt w rawUrl messageId index) = Inr None"
    using all by simp
  show "written (snd (materializeImageForVision rt w rawUrl messageId index)) = written w"
    using all by simp
  show "warnings (snd (materializeImageForVision rt w rawUrl messageId index)) = warnings w"
    using all by simp
qed

theorem oversized_input_returns_null_and_writes_nothing_witness:
  "materializeImageForVision example_runtime example_world
       (''base64://'' @ toString_base64 big_chunk) ''42'' 0
     = (Inr None, example_world)
   \<and> materializeImageForVision example_runtime example_world ''file:///data/film.bin'' ''42'' 0
     = (Inr None, example_world)
   \<and> materializeImageForVision example_runtime example_world ''/data/film.bin'' ''42'' 0
     = (Inr None, example_world)
   \<and> fst (materializeImageForVision example_runtime example_world
            ''https://img.example/huge.bin'' ''42'' 0) = Inr None
   \<and> written (snd (materializeImageForVision example_runtime example_world
            ''https://img.example/huge.bin'' ''42'' 0)) = []
   \<and> fst (materializeImageForVision example_runtime example_world
            ''https://img.example/nohead.bin'' ''42'' 0) = Inr None
   \<and> written (snd (materializeImageForVision example_runtime example_world
            ''https://img.example/nohead.bin'' ''42'' 0)) = []
   \<and> fst (materializeImageForVision example_runtime example_world
            ''https://img.example/stream.bin'' ''42'' 0) = Inr None
   \<and> written (snd (materializeImageForVision example_runtime example_world
            ''https://img.example/stream.bin'' ''42'' 0)) = []"
  using
    oversized_input_returns_null_and_writes_nothing
      [where rawUrl = "''base64://'' @ toString_base64 big_chunk" and w = example_world
        and rt = example_runtime and messageId = "''42''" and index = 0]
    oversized_input_returns_null_and_writes_nothing
      [where rawUrl = "''file:///data/film.bin''" and w = example_world
        and rt = example_runtime and messageId = "''42''" and index = 0
        and localPath = "''/data/film.bin''"
        and st = "\<lparr>isFile = True, size_bytes = 10485761\<rparr>"]
    oversized_input_returns_null_and_writes_nothing
      [where rawUrl = "''/data/film.bin''" and w = example_world
        and rt = example_runtime and messageId = "''42''" and index = 0
        and st = "\<lparr>isFile = True, size_bytes = 10485761\<rparr>"]
    oversized_input_returns_null_and_writes_nothing
      [where rawUrl = "''https://img.example/huge.bin''" and w = example_world
        and rt = example_runtime and messageId = "''42''" and index = 0
        and r = "\<lparr>ok = True, headers = [''content-length'' \<mapsto> ''20000000''], body = None\<rparr>"
        and q = 20000000]
    oversized_input_returns_null_and_writes_nothing
      [where rawUrl = "''https://img.example/nohead.bin''" and w = example_world
        and rt = example_runtime and messageId = "''42''" and index = 0
        and r = "\<lparr>ok = True, headers = [''content-length'' \<mapsto> ''20000000''],
                  body = Some Done\<rparr>"
        and q = 20000000]
    oversized_input_returns_null_and_writes_nothing
      [where rawUrl = "''https://img.example/stream.bin''" and w = example_world
        and rt = example_runtime and messageId = "''42''" and index = 0
        and r = "\<lparr>ok = True, headers = Map.empty, body = Some (Chunk big_chunk Done)\<rparr>"
        and s = "Chunk big_chunk Done"]
  by (simp add: example_world_def example_runtime_def example_stat_def example_fetch_def
      startsWith_def slice_from_def MAX_VISION_IMAGE_BYTES_def parseContentLength_def
      Buffer_from_base64_toString length_big_chunk)




section \<open>Claim on downloadImageUrlAsBase64\<close>




section \<open>Properties of the correlator\<close>

lemma digit_value_digit_char: "d < 10 \<Longrightarrow> digit_value (digit_char d) = d"
proof -
  assume d: "d < 10"
  have "index_of (''0123456789'' ! d) ''0123456789'' = Some d"
    by (rule index_of_nth) (use d in simp_all)
  then show ?thesis by (simp add: digit_value_def digit_char_def)
qed

lemma digits_value_snoc: "digits_value (ds @ [c]) = 10 * digits_value ds + digit_value c"
  by (simp add: digits_value_def)

lemma digits_value_string_of_nat: "digits_value (string_of_nat n) = n"
proof (induction n rule: string_of_nat.induct)
  case (1 n)
  show ?case
  proof (cases "n < 10")
    case True
    then show ?thesis
      by (subst string_of_nat.simps) (simp add: digits_value_def digit_value_digit_char)
  next
    case False
    have "digits_value (string_of_nat (n div 10) @ [digit_char (n mod 10)]) =
        10 * (n div 10) + n mod 10"
      using 1 False by (simp add: digits_value_snoc digit_value_digit_char)
    then show ?thesis
      using False by (subst string_of_nat.simps) simp
  qed
qed

lemma string_of_nat_inj: "string_of_nat a = string_of_nat b \<Longrightarrow> a = b"
  by (metis digits_value_string_of_nat)

lemma string_of_nat_no_underscore: "CHR ''_'' \<notin> set (string_of_nat n)"
  using string_of_nat_digits [of n] by auto

lemma make_echo_inj: "make_echo a k = make_echo b j \<Longrightarrow> k = j"
proof -
  assume "make_echo a k = make_echo b j"
  then have "string_of_nat a @ CHR ''_'' # string_of_nat k =
      string_of_nat b @ CHR ''_'' # string_of_nat j"
    by (simp add: make_echo_def)
  then have "string_of_nat k = string_of_nat j"
    using append_Cons_eq_iff [OF string_of_nat_no_underscore [of a]
        string_of_nat_no_underscore [of k], of "string_of_nat b" "string_of_nat j"]
    by blast
  then show ?thesis by (rule string_of_nat_inj)
qed

lemma make_echo_nonempty: "make_echo a k \<noteq> []"
  by (simp add: make_echo_def)

lemma wf_initial: "wf (initial now)"
  by (simp add: wf_def initial_def)

lemma wf_fresh: "wf s \<Longrightarrow> pending s (make_echo now (seq s)) = None"
proof (rule ccontr)
  assume w: "wf s" and "pending s (make_echo now (seq s)) \<noteq> None"
  then obtain k where k: "pending s (make_echo now (seq s)) = Some k" by auto
  with w obtain t where t: "timers s k = Some t" "timer_echo t = make_echo now (seq s)"
    unfolding wf_def by blast
  with w obtain c where "k < seq s" "timer_echo t = make_echo c k"
    unfolding wf_def by blast
  with t show False using make_echo_inj [of now "seq s" c k] by simp
qed

lemma wf_call: "wf s \<Longrightarrow> wf (call s action params timeoutMs)"
proof -
  assume w: "wf s"
  have fresh: "pending s (make_echo (clock s) (seq s)) = None"
    using w by (rule wf_fresh)
  have nt: "timers s (seq s) = None"
    using w unfolding wf_def by (cases "timers s (seq s)") auto
  have old: "timer_echo t \<noteq> make_echo (clock s) (seq s)" if "timers s k = Some t" for k t
    using w that fresh unfolding wf_def by force
  have w1: "k < seq s \<and> pending s (timer_echo t) = Some k \<and> promises s k = None
         \<and> (\<exists>now. timer_echo t = make_echo now k)" if "timers s k = Some t" for k t
    using w that unfolding wf_def by blast
  have w2: "\<exists>t. timers s k = Some t \<and> timer_echo t = e" if "pending s e = Some k" for e k
    using w that unfolding wf_def by blast
  have w3: "k < seq s" if "promises s k = Some v" for k v
    using w that unfolding wf_def by blast
  have w2': "k \<noteq> seq s" if "pending s e = Some k" for e k
    using w2 [OF that] nt by auto
  have np: "promises s (seq s) = None"
    using w3 [of "seq s"] by (cases "promises s (seq s)") auto
  show ?thesis
    unfolding wf_def call_def Let_def
    using w1 w2 w3 np nt old w2'
    by (simp del: fun_upd_apply, intro conjI allI impI)
       (auto simp: less_Suc_eq split: if_splits)
qed

lemma wf_fields:
  "timers s' = timers s \<Longrightarrow> pending s' = pending s \<Longrightarrow> promises s' = promises s \<Longrightarrow>
   seq s' = seq s \<Longrightarrow> wf s' = wf s"
  by (simp add: wf_def)

lemma wf_console [simp]: "wf (s\<lparr>console := c\<rparr>) = wf s"
  by (simp add: wf_def)

lemma wf_clock [simp]: "wf (s\<lparr>clock := c\<rparr>) = wf s"
  by (simp add: wf_def)

lemma wf_finish:
  assumes w: "wf s" and t: "timers s k = Some t"
  shows "wf (s\<lparr>timers := (timers s)(k := None), pending := (pending s)(timer_echo t := None),
              promises := (promises s)(k \<mapsto> v)\<rparr>)"
proof -
  have w1: "j < seq s \<and> pending s (timer_echo u) = Some j \<and> promises s j = None
         \<and> (\<exists>now. timer_echo u = make_echo now j)" if "timers s j = Some u" for j u
    using w that unfolding wf_def by blast
  have w2: "\<exists>u. timers s j = Some u \<and> timer_echo u = e" if "pending s e = Some j" for e j
    using w that unfolding wf_def by blast
  have w3: "j < seq s" if "promises s j = Some x" for j x
    using w that unfolding wf_def by blast
  have other: "timer_echo u \<noteq> timer_echo t" if "timers s j = Some u" "j \<noteq> k" for j u
    using w1 [OF that(1)] w1 [OF t] that(2) by auto
  have w2': "j \<noteq> k" if "pending s e = Some j" "e \<noteq> timer_echo t" for e j
    using w2 [OF that(1)] that(2) t by auto
  show ?thesis
    unfolding wf_def
    using w1 w2 w3 other w2' w1 [OF t]
    by (simp del: fun_upd_apply, intro conjI allI impI)
       (auto split: if_splits)
qed

lemma fire_active:
  "timers s k = Some t \<Longrightarrow> promises s k = None \<Longrightarrow>
   fire s k = s\<lparr>timers := (timers s)(k := None), pending := (pending s)(timer_echo t := None),
     promises := (promises s)(k \<mapsto>
       Rejected (''timeout action='' @ timer_action t @ '' echo='' @ timer_echo t))\<rparr>"
  by (simp add: fire_def settle_def)

lemma fire_inactive: "timers s k = None \<Longrightarrow> fire s k = s"
  by (simp add: fire_def)

lemma wf_fire: "wf s \<Longrightarrow> wf (fire s k)"
proof (cases "timers s k")
  case None
  then show "wf s \<Longrightarrow> wf (fire s k)" by (simp add: fire_inactive)
next
  case (Some t)
  assume w: "wf s"
  then have "promises s k = None"
    using Some unfolding wf_def by blast
  then show "wf (fire s k)"
    using wf_finish [OF w Some] by (simp add: fire_active [OF Some])
qed

lemma fire_frame [simp]: "seq (fire s k) = seq s" "clock (fire s k) = clock s"
  by (simp_all add: fire_def settle_def split: option.splits)

lemma foldl_fire_frame [simp]:
  "seq (foldl fire s ks) = seq s" "clock (foldl fire s ks) = clock s"
  by (induction ks arbitrary: s) simp_all

lemma wf_foldl_fire: "wf s \<Longrightarrow> wf (foldl fire s ks)"
  by (induction ks arbitrary: s) (simp_all add: wf_fire)

lemma wf_advance: "wf s \<Longrightarrow> wf (advance s d)"
  by (simp add: advance_def Let_def wf_foldl_fire)

lemma on_message_cases:
  "(\<exists>c. on_message parse s raw = s\<lparr>console := c\<rparr>)
   \<or> (\<exists>payload e k c. parse raw = Some payload \<and> echo_of payload = Some (JStr e)
        \<and> pending s e = Some k
        \<and> on_message parse s raw =
            done_call k payload (s\<lparr>console := c, pending := (pending s)(e := None)\<rparr>))"
proof (cases "parse raw")
  case None
  then show ?thesis by (auto simp: on_message_def)
next
  case (Some payload)
  show ?thesis
  proof (cases "echo_of payload")
    case None
    with Some show ?thesis by (auto simp: on_message_def)
  next
    case (Some v)
    note v = this
    show ?thesis
    proof (cases v)
      case (JStr e)
      show ?thesis
      proof (cases "pending s e")
        case None
        with \<open>parse raw = Some payload\<close> v JStr show ?thesis
          by (auto simp: on_message_def Let_def)
      next
        case (Some k)
        show ?thesis
        proof (cases "e = []")
          case True
          with \<open>parse raw = Some payload\<close> v JStr show ?thesis
            by (auto simp: on_message_def Let_def)
        next
          case False
          with \<open>parse raw = Some payload\<close> v JStr Some show ?thesis
            by (auto simp: on_message_def Let_def)
        qed
      qed
    qed (use \<open>parse raw = Some payload\<close> v in \<open>auto simp: on_message_def Let_def\<close>)
  qed
qed

lemma done_call_active:
  "timers s k = Some t \<Longrightarrow> promises s k = None \<Longrightarrow>
   done_call k payload (s\<lparr>console := c, pending := (pending s)(timer_echo t := None)\<rparr>) =
     s\<lparr>console := c, timers := (timers s)(k := None),
       pending := (pending s)(timer_echo t := None),
       promises := (promises s)(k \<mapsto> Resolved payload)\<rparr>"
  by (simp add: done_call_def settle_def)

lemma wf_on_message: "wf s \<Longrightarrow> wf (on_message parse s raw)"
proof -
  assume w: "wf s"
  from on_message_cases [of parse s raw] show ?thesis
  proof (elim disjE exE conjE)
    fix c assume "on_message parse s raw = s\<lparr>console := c\<rparr>"
    then show ?thesis using w by simp
  next
    fix payload e k c
    assume p: "pending s e = Some k"
      and eq: "on_message parse s raw =
            done_call k payload (s\<lparr>console := c, pending := (pending s)(e := None)\<rparr>)"
    from w p obtain t where t: "timers s k = Some t" "timer_echo t = e"
      unfolding wf_def by blast
    with w have np: "promises s k = None"
      unfolding wf_def by blast
    have "wf (s\<lparr>timers := (timers s)(k := None), pending := (pending s)(timer_echo t := None),
              promises := (promises s)(k \<mapsto> Resolved payload)\<rparr>)"
      by (rule wf_finish [OF w t(1)])
    moreover have "wf (on_message parse s raw) =
        wf (s\<lparr>timers := (timers s)(k := None), pending := (pending s)(timer_echo t := None),
              promises := (promises s)(k \<mapsto> Resolved payload)\<rparr>)"
      using done_call_active [OF t(1) np, of payload c] t(2) eq
      by (intro wf_fields) simp_all
    ultimately show ?thesis by simp
  qed
qed

lemma wf_step: "wf s \<Longrightarrow> wf (step parse s ev)"
  by (cases ev) (simp_all add: wf_call wf_on_message wf_advance)

lemma wf_run: "wf s \<Longrightarrow> wf (run parse s evs)"
  unfolding run_def by (induction evs arbitrary: s) (simp_all add: wf_step)

lemma wf_reachable: "wf (run parse (initial now) evs)"
  by (rule wf_run [OF wf_initial])

lemma settle_fields [simp]:
  "timers (settle k v s) = timers s" "pending (settle k v s) = pending s"
  "seq (settle k v s) = seq s" "clock (settle k v s) = clock s"
  by (simp_all add: settle_def split: option.splits)

lemma settle_promises:
  "promises (settle k v s) j =
     (if j = k \<and> promises s k = None then Some v else promises s j)"
  by (auto simp add: settle_def split: option.splits)

lemma fire_timers: "timers (fire s k) j = (if j = k then None else timers s j)"
  by (auto simp add: fire_def split: option.splits)

lemma fire_promises_kept: "promises s j = Some v \<Longrightarrow> promises (fire s k) j = Some v"
  by (auto simp add: fire_def settle_promises split: option.splits)


lemma fire_pending_kept: "pending s e = None \<Longrightarrow> pending (fire s k) e = None"
  by (auto simp add: fire_def split: option.splits)

lemma foldl_fire_timers:
  "timers (foldl fire s ks) j = (if j \<in> set ks then None else timers s j)"
  by (induction ks arbitrary: s) (auto simp: fire_timers)

lemma foldl_fire_promises_kept:
  "promises s j = Some v \<Longrightarrow> promises (foldl fire s ks) j = Some v"
  by (induction ks arbitrary: s) (simp_all add: fire_promises_kept)

lemma foldl_fire_pending_kept:
  "pending s e = None \<Longrightarrow> pending (foldl fire s ks) e = None"
  by (induction ks arbitrary: s) (simp_all add: fire_pending_kept)


lemma clock_call [simp]: "clock (call s action params timeoutMs) = clock s"
  by (simp add: call_def Let_def)

lemma clock_on_message [simp]: "clock (on_message parse s raw) = clock s"
  using on_message_cases [of parse s raw] by (auto simp: done_call_def)

lemma clock_advance [simp]: "clock (advance s d) = clock s + d"
  by (simp add: advance_def Let_def)

lemma due_set:
  "set (due s) = {k. k < seq s \<and> (\<exists>t. timers s k = Some t \<and> deadline t \<le> clock s)}"
  by (auto simp: due_def split: option.splits)

lemma waiting_call:
  "wf s \<Longrightarrow> timers s k = Some t \<Longrightarrow> timers (call s action params timeoutMs) k = Some t"
  by (auto simp: call_def Let_def wf_def)

lemma waiting_on_message:
  assumes w: "wf s" and t: "timers s k = Some t"
    and quiet: "\<not> carries parse (timer_echo t) (Inbound raw)"
  shows "timers (on_message parse s raw) k = Some t"
  using on_message_cases [of parse s raw]
proof (elim disjE exE conjE)
  fix c assume "on_message parse s raw = s\<lparr>console := c\<rparr>"
  then show ?thesis using t by simp
next
  fix payload e j c
  assume p: "parse raw = Some payload" "echo_of payload = Some (JStr e)" "pending s e = Some j"
    and eq: "on_message parse s raw =
            done_call j payload (s\<lparr>console := c, pending := (pending s)(e := None)\<rparr>)"
  have ne: "e \<noteq> timer_echo t"
    using quiet p by auto
  from w p(3) obtain u where u: "timers s j = Some u" "timer_echo u = e"
    unfolding wf_def by blast
  then have "j \<noteq> k" using t ne by auto
  then show ?thesis
    using eq t by (simp add: done_call_def)
qed

lemma waiting_advance:
  assumes t: "timers s k = Some t" and early: "clock s + d < deadline t"
  shows "timers (advance s d) k = Some t"
proof -
  have "k \<notin> set (due (s\<lparr>clock := clock s + d\<rparr>))"
    using t early by (auto simp: due_set)
  then show ?thesis
    using t by (simp add: advance_def Let_def foldl_fire_timers)
qed


lemma resolved_on_message:
  assumes w: "wf s" and t: "timers s k = Some t"
    and p: "parse raw = Some payload" "echo_of payload = Some (JStr (timer_echo t))"
  shows "promises (on_message parse s raw) k = Some (Resolved payload)
         \<and> pending (on_message parse s raw) (timer_echo t) = None
         \<and> timers (on_message parse s raw) k = None"
proof -
  have k: "pending s (timer_echo t) = Some k" "promises s k = None"
    "\<exists>now. timer_echo t = make_echo now k"
    using w t unfolding wf_def by blast+
  then have "timer_echo t \<noteq> []"
    by (metis make_echo_nonempty)
  then show ?thesis
    using p k by (simp add: on_message_def Let_def done_call_def settle_promises)
qed

lemma settled_step: "settled s k e v \<Longrightarrow> settled (step parse s ev) k e v"
proof (cases ev)
  case (Call a p tm)
  assume s: "settled s k e v"
  then have "make_echo (clock s) (seq s) \<noteq> e"
    using make_echo_inj unfolding settled_def by blast
  then show ?thesis
    using s Call by (auto simp: settled_def call_def Let_def)
next
  case (Inbound raw)
  assume s: "settled s k e v"
  from on_message_cases [of parse s raw] show ?thesis
  proof (elim disjE exE conjE)
    fix c assume "on_message parse s raw = s\<lparr>console := c\<rparr>"
    then show ?thesis using s Inbound by (simp add: settled_def)
  next
    fix payload e' j c
    assume "on_message parse s raw =
            done_call j payload (s\<lparr>console := c, pending := (pending s)(e' := None)\<rparr>)"
    then show ?thesis
      using s Inbound by (auto simp: settled_def done_call_def settle_promises)
  qed
next
  case (Elapse d)
  assume s: "settled s k e v"
  then show ?thesis
    using Elapse
    by (simp add: settled_def advance_def Let_def foldl_fire_timers
        foldl_fire_promises_kept foldl_fire_pending_kept)
qed

lemma settled_run: "settled s k e v \<Longrightarrow> settled (run parse s evs) k e v"
  unfolding run_def by (induction evs arbitrary: s) (simp_all add: settled_step)

lemma run_Cons: "run parse s (ev # evs) = run parse (step parse s ev) evs"
  by (simp add: run_def)

lemma run_append: "run parse s (evs @ evs') = run parse (run parse s evs) evs'"
  by (simp add: run_def)

lemma waiting_run:
  "wf s \<Longrightarrow> timers s k = Some t \<Longrightarrow> \<forall>ev \<in> set evs. \<not> carries parse (timer_echo t) ev \<Longrightarrow>
   clock s + elapsed evs < deadline t \<Longrightarrow>
   wf (run parse s evs) \<and> timers (run parse s evs) k = Some t"
proof (induction evs arbitrary: s)
  case Nil
  then show ?case by (simp add: run_def)
next
  case (Cons ev evs)
  have w: "wf (step parse s ev)"
    using Cons.prems(1) by (rule wf_step)
  show ?case
  proof (cases ev)
    case (Call a p tm)
    then have "timers (step parse s ev) k = Some t" "clock (step parse s ev) = clock s"
      using Cons.prems by (simp_all add: waiting_call)
    then show ?thesis
      using Cons.IH [OF w] Cons.prems Call by (simp add: run_Cons)
  next
    case (Inbound raw)
    then have "timers (step parse s ev) k = Some t" "clock (step parse s ev) = clock s"
      using Cons.prems by (simp_all add: waiting_on_message)
    then show ?thesis
      using Cons.IH [OF w] Cons.prems Inbound by (simp add: run_Cons)
  next
    case (Elapse d)
    then have "timers (step parse s ev) k = Some t" "clock (step parse s ev) = clock s + d"
      using Cons.prems by (simp_all add: waiting_advance)
    then show ?thesis
      using Cons.IH [OF w] Cons.prems Elapse by (simp add: run_Cons add.assoc)
  qed
qed


section \<open>Claims on the repro script\<close>









lemma seq_on_message [simp]: "seq (on_message parse s raw) = seq s"
  using on_message_cases [of parse s raw] by (auto simp: done_call_def)

lemma call_registers:
  "timers (call s action params timeoutMs) (seq s) =
     Some \<lparr>deadline = clock s + timer_delay (timeout_of timeoutMs), timer_action = action,
           timer_echo = make_echo (clock s) (seq s)\<rparr>
   \<and> pending (call s action params timeoutMs) (make_echo (clock s) (seq s)) = Some (seq s)
   \<and> sent (call s action params timeoutMs) =
       sent s @ [(action, params, make_echo (clock s) (seq s))]"
  by (simp add: call_def Let_def)


text \<open>
  C3. Take any state the script can reach, and a call made there; its token is
  \<open>make_echo (clock s0) (seq s0)\<close>. Let events follow that carry no message with this
  token and that take less than the timeout, then a message whose \<open>echo\<close> is the token,
  then any events at all. The call's promise is resolved with exactly that message, the
  token is no longer in \<open>pending\<close>, and the timer is cleared.
\<close>

theorem matching_response_resolves_the_call:
  "s0 = run parse (initial now) before
   \<and> e = make_echo (clock s0) (seq s0)
   \<and> (\<forall>ev \<in> set evs. \<not> carries parse e ev)
   \<and> elapsed evs < timer_delay (timeout_of timeoutMs)
   \<and> parse raw = Some payload \<and> echo_of payload = Some (JStr e)
   \<and> s = run parse (call s0 action params timeoutMs) (evs @ Inbound raw # after)
   \<longrightarrow> sent (call s0 action params timeoutMs) = sent s0 @ [(action, params, e)]
       \<and> pending (call s0 action params timeoutMs) e = Some (seq s0)
       \<and> promises s (seq s0) = Some (Resolved payload)
       \<and> pending s e = None
       \<and> timers s (seq s0) = None"
proof (intro impI, elim conjE)
  assume s0: "s0 = run parse (initial now) before"
    and e: "e = make_echo (clock s0) (seq s0)"
    and quiet: "\<forall>ev \<in> set evs. \<not> carries parse e ev"
    and early: "elapsed evs < timer_delay (timeout_of timeoutMs)"
    and p: "parse raw = Some payload" "echo_of payload = Some (JStr e)"
    and s: "s = run parse (call s0 action params timeoutMs) (evs @ Inbound raw # after)"
  define t where "t = \<lparr>deadline = clock s0 + timer_delay (timeout_of timeoutMs),
    timer_action = action, timer_echo = e\<rparr>"
  define s1 where "s1 = call s0 action params timeoutMs"
  have w1: "wf s1"
    unfolding s1_def s0 by (intro wf_call wf_reachable)
  have t1: "timers s1 (seq s0) = Some t"
    unfolding s1_def t_def e using call_registers [of s0 action params timeoutMs] by simp
  have te: "timer_echo t = e" "deadline t = clock s0 + timer_delay (timeout_of timeoutMs)"
    by (simp_all add: t_def)
  have "wf (run parse s1 evs) \<and> timers (run parse s1 evs) (seq s0) = Some t"
    using quiet early by (intro waiting_run [OF w1 t1]) (simp_all add: te s1_def)
  then have r: "wf (run parse s1 evs)" "timers (run parse s1 evs) (seq s0) = Some t"
    by simp_all
  have k: "seq s0 < seq (run parse s1 evs)" "\<exists>c. e = make_echo c (seq s0)"
    using r te(1) unfolding wf_def by blast+
  have "settled (step parse (run parse s1 evs) (Inbound raw)) (seq s0) e (Resolved payload)"
    using resolved_on_message [OF r, of parse raw payload] p te(1) k
    by (simp add: settled_def)
  then have "settled s (seq s0) e (Resolved payload)"
    unfolding s s1_def [symmetric] by (simp add: run_append run_Cons settled_run)
  then show "sent (call s0 action params timeoutMs) = sent s0 @ [(action, params, e)]
       \<and> pending (call s0 action params timeoutMs) e = Some (seq s0)
       \<and> promises s (seq s0) = Some (Resolved payload)
       \<and> pending s e = None
       \<and> timers s (seq s0) = None"
    using call_registers [of s0 action params timeoutMs] e by (simp add: settled_def)
qed

lemma initial_fields: "seq (initial now) = 0" "sent (initial now) = []"
  by (simp_all add: initial_def)

lemma example_echo: "make_echo 1000 0 = ''repro_1000_0''"
  by code_simp

lemma example_parse_reply:
  "example_parse example_reply =
     Some (JObj [(''echo'', JStr ''repro_1000_0''), (''status'', JStr ''ok'')])"
  by (simp add: example_parse_def)

lemma example_parse_noise: "example_parse ''pong'' = None"
  by (simp add: example_parse_def example_reply_def)

theorem matching_response_resolves_the_call_witness:
  "sent (call (initial 1000) ''send_group_msg'' JNull None)
     = [(''send_group_msg'', JNull, ''repro_1000_0'')]
   \<and> pending (call (initial 1000) ''send_group_msg'' JNull None) ''repro_1000_0'' = Some 0
   \<and> promises (run example_parse (call (initial 1000) ''send_group_msg'' JNull None)
         [Inbound ''pong'', Elapse 24999, Inbound example_reply, Elapse 30000]) 0
       = Some (Resolved (JObj [(''echo'', JStr ''repro_1000_0''), (''status'', JStr ''ok'')]))
   \<and> pending (run example_parse (call (initial 1000) ''send_group_msg'' JNull None)
         [Inbound ''pong'', Elapse 24999, Inbound example_reply, Elapse 30000])
         ''repro_1000_0''
       = None
   \<and> timers (run example_parse (call (initial 1000) ''send_group_msg'' JNull None)
         [Inbound ''pong'', Elapse 24999, Inbound example_reply, Elapse 30000]) 0 = None"
proof -
  have h: "initial 1000 = run example_parse (initial 1000) []
    \<and> ''repro_1000_0'' = make_echo (clock (initial 1000)) (seq (initial 1000))
    \<and> (\<forall>ev \<in> set [Inbound ''pong'', Elapse 24999]. \<not> carries example_parse ''repro_1000_0'' ev)
    \<and> elapsed [Inbound ''pong'', Elapse 24999] < timer_delay (timeout_of None)
    \<and> example_parse example_reply
        = Some (JObj [(''echo'', JStr ''repro_1000_0''), (''status'', JStr ''ok'')])
    \<and> echo_of (JObj [(''echo'', JStr ''repro_1000_0''), (''status'', JStr ''ok'')])
        = Some (JStr ''repro_1000_0'')
    \<and> run example_parse (call (initial 1000) ''send_group_msg'' JNull None)
         ([Inbound ''pong'', Elapse 24999] @ Inbound example_reply # [Elapse 30000])
      = run example_parse (call (initial 1000) ''send_group_msg'' JNull None)
         ([Inbound ''pong'', Elapse 24999] @ Inbound example_reply # [Elapse 30000])"
    by (simp add: run_def initial_def example_echo example_parse_noise example_parse_reply
        timer_delay_def timeout_of_def)
  have "sent (call (initial 1000) ''send_group_msg'' JNull None)
     = sent (initial 1000) @ [(''send_group_msg'', JNull, ''repro_1000_0'')]
   \<and> pending (call (initial 1000) ''send_group_msg'' JNull None) ''repro_1000_0''
       = Some (seq (initial 1000))
   \<and> promises (run example_parse (call (initial 1000) ''send_group_msg'' JNull None)
         ([Inbound ''pong'', Elapse 24999] @ Inbound example_reply # [Elapse 30000]))
         (seq (initial 1000))
       = Some (Resolved (JObj [(''echo'', JStr ''repro_1000_0''), (''status'', JStr ''ok'')]))
   \<and> pending (run example_parse (call (initial 1000) ''send_group_msg'' JNull None)
         ([Inbound ''pong'', Elapse 24999] @ Inbound example_reply # [Elapse 30000]))
         ''repro_1000_0''
       = None
   \<and> timers (run example_parse (call (initial 1000) ''send_group_msg'' JNull None)
         ([Inbound ''pong'', Elapse 24999] @ Inbound example_reply # [Elapse 30000]))
         (seq (initial 1000)) = None"
    by (rule mp [OF matching_response_resolves_the_call h])
  then show ?thesis
    by (simp add: initial_fields)
qed



end
